theory Spec2Isabelle
  imports Complex_Main "HOL-Library.AList"
begin

section \<open>JavaScript numbers\<close>

text \<open>
  The scanner computes with JavaScript numbers. A number is modelled as a real, or one of
  the three special values a computation of the program can produce: \<open>Infinity\<close>,
  \<open>-Infinity\<close> and \<open>NaN\<close>. The operations below follow ECMAScript on the special
  values and are exact on finite values; the sign of zero is not modelled. The selector
  \<open>num\<close> reads the real of a finite number.

  The distance between two embeddings uses these exact operations: it is the Euclidean
  distance, which the program computes up to the rounding of each operation, and the
  matcher only compares distances. The confidence, the sum of the threshold and the band
  in the matcher, and the plausibility filter, whose results turn on the last bit at a
  boundary, use the operations of the next section, which round every result to
  binary64.
\<close>

datatype jsnum = Num (num: real) | PInf | NInf | NaN

fun isFinite :: "jsnum \<Rightarrow> bool" where
  "isFinite (Num x) = True"
| "isFinite PInf = False"
| "isFinite NInf = False"
| "isFinite NaN = False"

fun js_neg :: "jsnum \<Rightarrow> jsnum" where
  "js_neg (Num x) = Num (- x)"
| "js_neg PInf = NInf"
| "js_neg NInf = PInf"
| "js_neg NaN = NaN"

fun js_add :: "jsnum \<Rightarrow> jsnum \<Rightarrow> jsnum" where
  "js_add (Num x) (Num y) = Num (x + y)"
| "js_add NaN b = NaN"
| "js_add a NaN = NaN"
| "js_add PInf NInf = NaN"
| "js_add NInf PInf = NaN"
| "js_add PInf b = PInf"
| "js_add a PInf = PInf"
| "js_add NInf b = NInf"
| "js_add a NInf = NInf"

definition js_sub :: "jsnum \<Rightarrow> jsnum \<Rightarrow> jsnum" where
  "js_sub a b = js_add a (js_neg b)"

text \<open>The sign of an infinite product or quotient: positive when \<open>pos\<close> holds.\<close>

definition signed_inf :: "bool \<Rightarrow> jsnum" where
  "signed_inf pos = (if pos then PInf else NInf)"

fun js_mul :: "jsnum \<Rightarrow> jsnum \<Rightarrow> jsnum" where
  "js_mul (Num x) (Num y) = Num (x * y)"
| "js_mul NaN b = NaN"
| "js_mul a NaN = NaN"
| "js_mul (Num x) PInf = (if x = 0 then NaN else signed_inf (0 < x))"
| "js_mul (Num x) NInf = (if x = 0 then NaN else signed_inf (x < 0))"
| "js_mul PInf (Num y) = (if y = 0 then NaN else signed_inf (0 < y))"
| "js_mul NInf (Num y) = (if y = 0 then NaN else signed_inf (y < 0))"
| "js_mul PInf PInf = PInf"
| "js_mul PInf NInf = NInf"
| "js_mul NInf PInf = NInf"
| "js_mul NInf NInf = PInf"

fun js_div :: "jsnum \<Rightarrow> jsnum \<Rightarrow> jsnum" where
  "js_div (Num x) (Num y) =
     (if y = 0 then (if x = 0 then NaN else signed_inf (0 < x)) else Num (x / y))"
| "js_div NaN b = NaN"
| "js_div a NaN = NaN"
| "js_div (Num x) PInf = Num 0"
| "js_div (Num x) NInf = Num 0"
| "js_div PInf (Num y) = signed_inf (0 \<le> y)"
| "js_div NInf (Num y) = signed_inf (y < 0)"
| "js_div PInf b = NaN"
| "js_div NInf b = NaN"

fun Math_sqrt :: "jsnum \<Rightarrow> jsnum" where
  "Math_sqrt (Num x) = (if x < 0 then NaN else Num (sqrt x))"
| "Math_sqrt PInf = PInf"
| "Math_sqrt NInf = NaN"
| "Math_sqrt NaN = NaN"

text \<open>Comparisons: every comparison with \<open>NaN\<close> is false.\<close>

fun js_lt :: "jsnum \<Rightarrow> jsnum \<Rightarrow> bool" where
  "js_lt (Num x) (Num y) = (x < y)"
| "js_lt NaN b = False"
| "js_lt a NaN = False"
| "js_lt a NInf = False"
| "js_lt PInf b = False"
| "js_lt NInf b = True"
| "js_lt a PInf = True"

fun js_le :: "jsnum \<Rightarrow> jsnum \<Rightarrow> bool" where
  "js_le (Num x) (Num y) = (x \<le> y)"
| "js_le NaN b = False"
| "js_le a NaN = False"
| "js_le NInf b = True"
| "js_le a PInf = True"
| "js_le a NInf = False"
| "js_le PInf b = False"

definition js_gt :: "jsnum \<Rightarrow> jsnum \<Rightarrow> bool" where
  "js_gt a b = js_lt b a"

fun Math_min :: "jsnum \<Rightarrow> jsnum \<Rightarrow> jsnum" where
  "Math_min NaN b = NaN"
| "Math_min a NaN = NaN"
| "Math_min a b = (if js_lt b a then b else a)"

fun Math_max :: "jsnum \<Rightarrow> jsnum \<Rightarrow> jsnum" where
  "Math_max NaN b = NaN"
| "Math_max a NaN = NaN"
| "Math_max a b = (if js_lt a b then b else a)"

text \<open>\<open>Math.round\<close> rounds to the nearest integer, a tie towards \<open>+Infinity\<close>.\<close>

fun Math_round :: "jsnum \<Rightarrow> jsnum" where
  "Math_round (Num x) = Num (of_int \<lfloor>x + 1 / 2\<rfloor>)"
| "Math_round a = a"

section \<open>Rounding to binary64\<close>

text \<open>
  A JavaScript number is an IEEE 754 binary64 value and every arithmetic operation rounds
  its exact result to the nearest such value, a tie to the one with an even significand.
  \<open>expo x\<close> is the exponent of the binade of \<open>x\<close> (at least -1022, where the
  subnormal numbers begin), \<open>ulp x\<close> the spacing of the binary64 values there, \<open>rhe\<close>
  rounds a real to the nearest integer, a tie to the even one, and \<open>rnd x\<close> is the
  binary64 value nearest to \<open>x\<close> when the exponent is not bounded above. \<open>fl x\<close>
  is the number an operation with exact result \<open>x\<close> returns: an infinity when the
  rounded value is out of range.
\<close>

definition expo :: "real \<Rightarrow> int" where
  "expo x = (if x = 0 then - 1022 else max \<lfloor>log 2 \<bar>x\<bar>\<rfloor> (- 1022))"

definition ulp :: "real \<Rightarrow> real" where
  "ulp x = 2 powr of_int (expo x - 52)"

definition rhe :: "real \<Rightarrow> int" where
  "rhe y =
     (let f = \<lfloor>y\<rfloor> in
      if y - of_int f < 1 / 2 then f
      else if 1 / 2 < y - of_int f then f + 1
      else if even f then f else f + 1)"

definition rnd :: "real \<Rightarrow> real" where
  "rnd x = of_int (rhe (x / ulp x)) * ulp x"

definition fl :: "real \<Rightarrow> jsnum" where
  "fl x = (if 2 ^ 1024 \<le> \<bar>rnd x\<bar> then signed_inf (0 < x) else Num (rnd x))"

text \<open>
  The rounded operations: on two finite numbers the exact result is rounded, and on the
  special values they are the operations above.
\<close>

fun fl_add :: "jsnum \<Rightarrow> jsnum \<Rightarrow> jsnum" where
  "fl_add (Num x) (Num y) = fl (x + y)"
| "fl_add a b = js_add a b"

definition fl_sub :: "jsnum \<Rightarrow> jsnum \<Rightarrow> jsnum" where
  "fl_sub a b = fl_add a (js_neg b)"

fun fl_mul :: "jsnum \<Rightarrow> jsnum \<Rightarrow> jsnum" where
  "fl_mul (Num x) (Num y) = fl (x * y)"
| "fl_mul a b = js_mul a b"

fun fl_div :: "jsnum \<Rightarrow> jsnum \<Rightarrow> jsnum" where
  "fl_div (Num x) (Num y) = (if y = 0 then js_div (Num x) (Num y) else fl (x / y))"
| "fl_div a b = js_div a b"

section \<open>Distance between two embeddings\<close>

text \<open>
  An embedding is an array of finite numbers. Reading an array past its end gives
  \<open>undefined\<close>, which arithmetic converts to \<open>NaN\<close>; \<open>elem\<close> is that read, as an
  operand of a subtraction.
\<close>

definition elem :: "real list \<Rightarrow> nat \<Rightarrow> jsnum" where
  "elem a i = (if i < length a then Num (a ! i) else NaN)"

text \<open>
  \<^verbatim>\<open>
  function dist(a, b) {
    let s = 0;
    for (let i = 0; i < a.length; i++) {
      const d = a[i] - b[i];
      s += d * d;
    }
    return Math.sqrt(s);
  }
  \<close>
\<close>

function dist_loop :: "real list \<Rightarrow> real list \<Rightarrow> nat \<Rightarrow> jsnum \<Rightarrow> jsnum" where
  "dist_loop a b i s =
     (if i < length a
      then (let d = js_sub (elem a i) (elem b i) in dist_loop a b (i + 1) (js_add s (js_mul d d)))
      else s)"
  by pat_completeness auto
termination
  by (relation "measure (\<lambda>(a, b, i, s). length a - i)") auto

declare dist_loop.simps [simp del]

definition dist_vec :: "real list \<Rightarrow> real list \<Rightarrow> jsnum" where
  "dist_vec a b = Math_sqrt (dist_loop a b 0 (Num 0))"

section \<open>Profiles and the selection map\<close>

text \<open>
  \<open>people\<close> is an array of \<open>{id, name, samples}\<close>; the field \<open>samples\<close> may be absent
  (\<open>p.samples || []\<close>, \<open>p.samples?.length || 0\<close> in the source), which is \<open>None\<close> here.
  The fields \<open>id\<close> and \<open>name\<close> are written \<open>ident\<close> and \<open>pname\<close>.
  \<open>scanSelection\<close> is an object from person ids to booleans: an association list in
  insertion order, the order of \<open>Object.keys\<close>. Ids are the strings that \<open>uid()\<close>
  makes (hexadecimal digits), so \<open>id in scanSelection\<close> is membership among the
  object's own keys.
\<close>

record person =
  ident :: string
  pname :: string
  samples :: "real list list option"

type_synonym selection = "(string \<times> bool) list"

definition samplesOrEmpty :: "person \<Rightarrow> real list list" where
  "samplesOrEmpty p = (case samples p of None \<Rightarrow> [] | Some ss \<Rightarrow> ss)"

text \<open>
  \<^verbatim>\<open>
  function selectedPeople() {
    return people.filter((p) => scanSelection[p.id] !== false); // default true
  }
  \<close>
\<close>

definition selectedPeople :: "person list \<Rightarrow> selection \<Rightarrow> person list" where
  "selectedPeople people scanSelection =
     filter (\<lambda>p. map_of scanSelection (ident p) \<noteq> Some False) people"

text \<open>
  \<^verbatim>\<open>
  function syncSelection() {
    const known = new Set(people.map((p) => p.id));
    for (const p of people) {
      if (!(p.id in scanSelection)) scanSelection[p.id] = true;
    }
    for (const id of Object.keys(scanSelection)) {
      if (!known.has(id)) delete scanSelection[id];
    }
    saveSelection();
  }
  \<close>
  The two loops are \<open>addMissing\<close> and \<open>removeUnknown\<close>; the updated object is returned
  (\<open>saveSelection\<close> writes that object to local storage).
\<close>

fun addMissing :: "person list \<Rightarrow> selection \<Rightarrow> selection" where
  "addMissing [] scanSelection = scanSelection"
| "addMissing (p # ps) scanSelection =
     addMissing ps
       (if ident p \<notin> fst ` set scanSelection
        then AList.update (ident p) True scanSelection else scanSelection)"

fun removeUnknown :: "string list \<Rightarrow> string set \<Rightarrow> selection \<Rightarrow> selection" where
  "removeUnknown [] known scanSelection = scanSelection"
| "removeUnknown (k # ks) known scanSelection =
     removeUnknown ks known
       (if k \<notin> known then AList.delete k scanSelection else scanSelection)"

definition syncSelection :: "person list \<Rightarrow> selection \<Rightarrow> selection" where
  "syncSelection people scanSelection =
     (let known = set (map ident people);
          added = addMissing people scanSelection
      in removeUnknown (map fst added) known added)"

section \<open>Matching a descriptor against the selected people\<close>

definition BORDERLINE_BAND :: real where
  "BORDERLINE_BAND = 1 / 10"

definition MAX_FACES_PER_IMAGE :: nat where
  "MAX_FACES_PER_IMAGE = 30"

text \<open>
  \<^verbatim>\<open>
  function distanceToConfidence(d, thr) {
    const max = thr + BORDERLINE_BAND + 0.25;
    const clamped = Math.max(0, Math.min(1, 1 - d / max));
    return Math.round(clamped * 100);
  }
  \<close>
\<close>

text \<open>
  Every operation rounds to binary64. The literal \<open>0.10\<close> of \<open>BORDERLINE_BAND\<close> is the
  binary64 value nearest to one tenth, \<open>fl BORDERLINE_BAND\<close>; 0.25, 0, 1 and 100 are
  binary64 values. \<open>Math.round\<close> returns an integer and does not round further.
\<close>

definition distanceToConfidence :: "jsnum \<Rightarrow> jsnum \<Rightarrow> jsnum" where
  "distanceToConfidence d thr =
     (let mx = fl_add (fl_add thr (fl BORDERLINE_BAND)) (Num (1 / 4));
          clamped = Math_max (Num 0) (Math_min (Num 1) (fl_sub (Num 1) (fl_div d mx)))
      in Math_round (fl_mul clamped (Num 100)))"

text \<open>
  The scan of one person's samples, the inner loop of \<open>matchesForDescriptor\<close> and of
  \<open>bestMatchForDescriptor\<close>, entered with \<open>best = Infinity\<close>:
  \<^verbatim>\<open>
    for (const s of (p.samples || [])) {
      const d = dist(descriptor, s);
      if (d < best) best = d;
      if (best < 0.20) break; // tiny early-exit
    }
  \<close>
  The literal \<open>0.20\<close> is the binary64 value nearest to one fifth and lies above it; a
  binary64 distance is below the one exactly when it is below the other (lemma
  \<open>cutoff_binary64\<close>), and the cutoff is written as one fifth.
\<close>

fun scanSamples :: "real list \<Rightarrow> real list list \<Rightarrow> jsnum \<Rightarrow> jsnum" where
  "scanSamples descriptor [] best = best"
| "scanSamples descriptor (s # ss) best =
     (let d = dist_vec descriptor s;
          best' = (if js_lt d best then d else best)
      in if js_lt best' (Num (1 / 5)) then best' else scanSamples descriptor ss best')"

datatype tier = Flagged | Possible | Clear

text \<open>
  A match is \<open>{personId, name, dist, confidence, level}\<close>; the field \<open>dist\<close> is written
  \<open>distance\<close>. It is only built after \<open>isFinite(best)\<close>, so its distance is a real,
  \<open>num best\<close>.
  The variant with two buckets builds matches without a level.
\<close>

record candidate =
  personId :: string
  name :: string
  distance :: real
  confidence :: jsnum

record match = candidate +
  level :: tier

record matches =
  hits :: "match list"
  possibles :: "match list"

text \<open>
  \<^verbatim>\<open>
  function matchesForDescriptor(descriptor, thr) {
    const pool = selectedPeople();
    const hits = [];
    const possibles = [];
    for (const p of pool) {
      let best = Infinity;
      for (const s of (p.samples || [])) { ... }
      if (!isFinite(best)) continue;
      if (best <= thr) {
        hits.push({ personId: p.id, name: p.name, dist: best,
                    confidence: distanceToConfidence(best, thr), level: "flagged" });
      } else if (best <= thr + BORDERLINE_BAND) {
        possibles.push({ ..., level: "possible" });
      }
    }
    hits.sort((a,b) => a.dist - b.dist);
    possibles.sort((a,b) => a.dist - b.dist);
    return { hits, possibles };
  }
  \<close>
  \<open>Array.prototype.sort\<close> is stable, as \<open>sort_key\<close> is. The threshold is the value of
  the range input, a finite number. The sum \<open>thr + BORDERLINE_BAND\<close> of the second
  comparison is a rounded sum, as in \<open>distanceToConfidence\<close>; it is \<open>possibleLimit\<close>.
\<close>

definition possibleLimit :: "real \<Rightarrow> jsnum" where
  "possibleLimit thr = fl_add (Num thr) (fl BORDERLINE_BAND)"

definition mkMatch :: "person \<Rightarrow> real \<Rightarrow> real \<Rightarrow> tier \<Rightarrow> match" where
  "mkMatch p best thr lv =
     \<lparr>personId = ident p, name = pname p, distance = best,
      confidence = distanceToConfidence (Num best) (Num thr), level = lv\<rparr>"

fun matchLoop ::
  "real list \<Rightarrow> real \<Rightarrow> person list \<Rightarrow> match list \<times> match list \<Rightarrow> match list \<times> match list"
where
  "matchLoop descriptor thr [] (hs, ps) = (hs, ps)"
| "matchLoop descriptor thr (p # pool) (hs, ps) =
     (let b = scanSamples descriptor (samplesOrEmpty p) PInf in
      if \<not> isFinite b then matchLoop descriptor thr pool (hs, ps)
      else if num b \<le> thr
      then matchLoop descriptor thr pool (hs @ [mkMatch p (num b) thr Flagged], ps)
      else if js_le b (possibleLimit thr)
      then matchLoop descriptor thr pool (hs, ps @ [mkMatch p (num b) thr Possible])
      else matchLoop descriptor thr pool (hs, ps))"

definition matchesForDescriptor ::
  "person list \<Rightarrow> selection \<Rightarrow> real list \<Rightarrow> real \<Rightarrow> matches" where
  "matchesForDescriptor people scanSelection descriptor thr =
     (let pool = selectedPeople people scanSelection;
          (hs, ps) = matchLoop descriptor thr pool ([], [])
      in \<lparr>hits = sort_key distance hs, possibles = sort_key distance ps\<rparr>)"

section \<open>The variant that keeps the closest person only\<close>

text \<open>
  One of the earlier versions of the program (the second program of
  \<^verbatim>\<open>src/unnamed/part_001\<close>) keeps only the closest person of a face and has the two
  buckets MATCH and CLEAR; its matches have no level.
\<close>

text \<open>
  \<^verbatim>\<open>
  function distanceToConfidence(d, thr) {
    const max = thr + 0.25;
    const clamped = Math.max(0, Math.min(1, 1 - d / max));
    return Math.round(clamped * 100);
  }

  function bestMatchForDescriptor(descriptor, thr) {
    const pool = selectedPeople();
    let best = null;
    for (const p of pool) {
      if (!p.samples?.length) continue;
      let bestDist = Infinity;
      for (const s of p.samples) { ... }
      if (!isFinite(bestDist)) continue;
      if (!best || bestDist < best.dist) {
        best = { personId: p.id, name: p.name, dist: bestDist,
                 confidence: distanceToConfidence(bestDist, thr) };
      }
    }
    if (!best || best.dist > thr) return null;
    return best;
  }
  \<close>
\<close>

definition distanceToConfidence_closest :: "jsnum \<Rightarrow> jsnum \<Rightarrow> jsnum" where
  "distanceToConfidence_closest d thr =
     (let mx = fl_add thr (Num (1 / 4));
          clamped = Math_max (Num 0) (Math_min (Num 1) (fl_sub (Num 1) (fl_div d mx)))
      in Math_round (fl_mul clamped (Num 100)))"

definition mkCandidate :: "person \<Rightarrow> real \<Rightarrow> real \<Rightarrow> candidate" where
  "mkCandidate p bestDist thr =
     \<lparr>personId = ident p, name = pname p, distance = bestDist,
      confidence = distanceToConfidence_closest (Num bestDist) (Num thr)\<rparr>"

fun closestLoop ::
  "real list \<Rightarrow> real \<Rightarrow> person list \<Rightarrow> candidate option \<Rightarrow> candidate option" where
  "closestLoop descriptor thr [] b = b"
| "closestLoop descriptor thr (p # pool) b =
     (if samplesOrEmpty p = [] then closestLoop descriptor thr pool b
      else let bestDist = scanSamples descriptor (samplesOrEmpty p) PInf in
        if \<not> isFinite bestDist then closestLoop descriptor thr pool b
        else case b of
          None \<Rightarrow> closestLoop descriptor thr pool (Some (mkCandidate p (num bestDist) thr))
        | Some prev \<Rightarrow>
            if num bestDist < distance prev
            then closestLoop descriptor thr pool (Some (mkCandidate p (num bestDist) thr))
            else closestLoop descriptor thr pool b)"

definition bestMatchForDescriptor ::
  "person list \<Rightarrow> selection \<Rightarrow> real list \<Rightarrow> real \<Rightarrow> candidate option" where
  "bestMatchForDescriptor people scanSelection descriptor thr =
     (case closestLoop descriptor thr (selectedPeople people scanSelection) None of
        None \<Rightarrow> None
      | Some b \<Rightarrow> if distance b > thr then None else Some b)"

section \<open>Removing repeated persons\<close>

text \<open>
  \<^verbatim>\<open>
  function dedupeByPerson(list) {
    const map = new Map();
    for (const item of list) {
      const prev = map.get(item.personId);
      if (!prev || item.dist < prev.dist) map.set(item.personId, item);
    }
    return Array.from(map.values()).sort((a,b) => a.dist - b.dist);
  }
  \<close>
  The \<open>Map\<close> is an association list in insertion order: \<open>set\<close> on a key that is present
  replaces the value in place, on a new key it appends, as \<open>AList.update\<close> does.
\<close>

fun dedupeLoop :: "match list \<Rightarrow> (string \<times> match) list \<Rightarrow> (string \<times> match) list" where
  "dedupeLoop [] m = m"
| "dedupeLoop (item # list) m =
     (case map_of m (personId item) of
        None \<Rightarrow> dedupeLoop list (AList.update (personId item) item m)
      | Some prev \<Rightarrow>
          if distance item < distance prev
          then dedupeLoop list (AList.update (personId item) item m)
          else dedupeLoop list m)"

definition dedupeByPerson :: "match list \<Rightarrow> match list" where
  "dedupeByPerson list = sort_key distance (map snd (dedupeLoop list []))"

section \<open>Scanning an image\<close>

text \<open>
  A detection carries its descriptor, the width and height of its box and its score
  (\<open>det.detection.score ?? 0\<close>: the score may be absent).
\<close>

record detection =
  descriptor :: "real list"
  width :: real
  height :: real
  score :: "real option"

text \<open>
  \<^verbatim>\<open>
    const faceResults = trimmed.map((det) => {
      const desc = Array.from(det.descriptor);
      const m = matchesForDescriptor(desc, thr);
      const best = m.hits[0] || m.possibles[0] || null;
      return { det, ...m, best, scale };
    });
  \<close>
  The scale is only used to draw the preview and is left out.
\<close>

record faceResult = matches +
  det :: detection
  best :: "match option"

definition faceResultOf :: "person list \<Rightarrow> selection \<Rightarrow> real \<Rightarrow> detection \<Rightarrow> faceResult" where
  "faceResultOf people scanSelection thr d =
     (let m = matchesForDescriptor people scanSelection (descriptor d) thr
      in \<lparr>hits = hits m, possibles = possibles m, det = d,
          best = (case hits m of h # _ \<Rightarrow> Some h
                  | [] \<Rightarrow> (case possibles m of q # _ \<Rightarrow> Some q | [] \<Rightarrow> None))\<rparr>)"

text \<open>
  \<^verbatim>\<open>
    const imageHits = [];
    const imagePossibles = [];
    for (const fr of faceResults) {
      if (fr.hits.length) imageHits.push(...fr.hits);
      else if (fr.possibles.length) imagePossibles.push(...fr.possibles);
    }
    const uniqHits = dedupeByPerson(imageHits);
    const uniqPoss = dedupeByPerson(imagePossibles);
    let status = "clear";
    if (uniqHits.length) status = "flagged";
    else if (uniqPoss.length) status = "possible";
    const listForLabel = status === "flagged" ? uniqHits : status === "possible" ? uniqPoss : [];
  \<close>
\<close>

fun collectImage ::
  "faceResult list \<Rightarrow> match list \<times> match list \<Rightarrow> match list \<times> match list" where
  "collectImage [] (imageHits, imagePossibles) = (imageHits, imagePossibles)"
| "collectImage (fr # frs) (imageHits, imagePossibles) =
     (if hits fr \<noteq> [] then collectImage frs (imageHits @ hits fr, imagePossibles)
      else if possibles fr \<noteq> [] then collectImage frs (imageHits, imagePossibles @ possibles fr)
      else collectImage frs (imageHits, imagePossibles))"

text \<open>
  What the handler shows for one image: the tag (\<open>status\<close>), the list the label is made
  of, and the number of faces (\<open>trimmed.length\<close>).
\<close>

record verdict =
  status :: tier
  listForLabel :: "match list"
  faceCount :: nat

definition imageVerdict :: "faceResult list \<Rightarrow> verdict" where
  "imageVerdict faceResults =
     (let (imageHits, imagePossibles) = collectImage faceResults ([], []);
          uniqHits = dedupeByPerson imageHits;
          uniqPoss = dedupeByPerson imagePossibles;
          st = (if uniqHits \<noteq> [] then Flagged else if uniqPoss \<noteq> [] then Possible else Clear)
      in \<lparr>status = st,
          listForLabel = (if st = Flagged then uniqHits else if st = Possible then uniqPoss else []),
          faceCount = length faceResults\<rparr>)"

definition scanImage :: "person list \<Rightarrow> selection \<Rightarrow> real \<Rightarrow> detection list \<Rightarrow> verdict" where
  "scanImage people scanSelection thr detections =
     (let trimmed = take MAX_FACES_PER_IMAGE detections;
          faceResults = map (faceResultOf people scanSelection thr) trimmed
      in imageVerdict faceResults)"

text \<open>
  The click handler of the scan button. A file is given by what the detector returns for
  it: the detections of the first call and those of the more sensitive fallback call,
  used when the first call finds nothing.
  \<^verbatim>\<open>
  btnScan.addEventListener("click", async () => {
    if (!modelsReady) return setStatus(scanStatus, "Models not ready yet.");
    const files = Array.from(scanInput.files || []);
    if (!files.length) return;
    const pool = selectedPeople();
    const poolSamples = pool.reduce((s, p) => s + (p.samples?.length || 0), 0);
    if (!pool.length || poolSamples === 0) {
      return setStatus(scanStatus,
        "No selected people with samples. Check filters and enroll samples first.");
    }
    const thr = parseFloat(threshold.value);
    ...
    for (let i = 0; i < files.length; i++) { ... }
    setStatus(scanStatus, `Done. ...`);
  });
  \<close>
\<close>

record scanFile =
  firstCall :: "detection list"
  fallbackCall :: "detection list"

datatype outcome =
  StatusOnly string
  | NoEffect
  | Scanned "verdict list"

definition poolSamples :: "person list \<Rightarrow> nat" where
  "poolSamples pool = foldl (\<lambda>s p. s + length (samplesOrEmpty p)) 0 pool"

definition btnScan_click ::
  "bool \<Rightarrow> scanFile list \<Rightarrow> person list \<Rightarrow> selection \<Rightarrow> real \<Rightarrow> outcome" where
  "btnScan_click modelsReady files people scanSelection thr =
     (if \<not> modelsReady then StatusOnly ''Models not ready yet.''
      else if files = [] then NoEffect
      else let pool = selectedPeople people scanSelection in
        if pool = [] \<or> poolSamples pool = 0
        then StatusOnly ''No selected people with samples. Check filters and enroll samples first.''
        else Scanned
          (map (\<lambda>f. scanImage people scanSelection thr
                  (if firstCall f = [] then fallbackCall f else firstCall f)) files))"

section \<open>The plausibility filter of the variant\<close>

text \<open>
  The same variant filters implausible detections before it matches them.
  \<^verbatim>\<open>
  const MIN_FACE_PX = 40;
  const MIN_DET_SCORE = 0.35;
  const MIN_AR = 0.65;
  const MAX_AR = 1.60;

  function isPlausibleFace(det, detScale, img) {
    const b = det.detection.box;
    const score = det.detection.score ?? 0;
    const w = b.width / detScale;
    const h = b.height / detScale;
    if (score < MIN_DET_SCORE) return false;
    const minSide = Math.min(w, h);
    if (minSide < MIN_FACE_PX) return false;
    const ar = w / h;
    if (ar < MIN_AR || ar > MAX_AR) return false;
    if (w > img.width * 0.75 || h > img.height * 0.75) return false;
    return true;
  }
  \<close>
\<close>

definition MIN_FACE_PX :: real where
  "MIN_FACE_PX = 40"

definition MIN_DET_SCORE :: real where
  "MIN_DET_SCORE = 35 / 100"

definition MIN_AR :: real where
  "MIN_AR = 65 / 100"

definition MAX_AR :: real where
  "MAX_AR = 160 / 100"

record image =
  img_width :: real
  img_height :: real

text \<open>
  The divisions and the products round to binary64, and the literals 0.35, 0.65 and 1.60
  are the binary64 values nearest to them (\<open>fl MIN_DET_SCORE\<close>, \<open>fl MIN_AR\<close>,
  \<open>fl MAX_AR\<close>); 40 and 0.75 are binary64 values.
\<close>

definition isPlausibleFace :: "detection \<Rightarrow> real \<Rightarrow> image \<Rightarrow> bool" where
  "isPlausibleFace d detScale img =
     (let sc = (case score d of None \<Rightarrow> 0 | Some s \<Rightarrow> s);
          w = fl_div (Num (width d)) (Num detScale);
          h = fl_div (Num (height d)) (Num detScale)
      in if js_lt (Num sc) (fl MIN_DET_SCORE) then False
         else let minSide = Math_min w h in
           if js_lt minSide (Num MIN_FACE_PX) then False
           else let ar = fl_div w h in
             if js_lt ar (fl MIN_AR) \<or> js_gt ar (fl MAX_AR) then False
             else if js_gt w (fl_mul (Num (img_width img)) (Num (3 / 4)))
                     \<or> js_gt h (fl_mul (Num (img_height img)) (Num (3 / 4))) then False
             else True)"

section \<open>Notions of the specification\<close>

text \<open>
  The distance the program reports for one identity: the scan of its samples, entered
  with \<open>Infinity\<close>.
\<close>

definition bestDistanceToIdentity :: "real list \<Rightarrow> person \<Rightarrow> jsnum" where
  "bestDistanceToIdentity q p = scanSamples q (samplesOrEmpty p) PInf"

text \<open>
  The distances from a query to the samples of an identity, in sample order. A sample
  whose distance is not a number (\<open>NaN\<close>) has none.
\<close>

definition sampleDistances :: "real list \<Rightarrow> real list list \<Rightarrow> real list" where
  "sampleDistances q ss =
     concat (map (\<lambda>s. case dist_vec q s of Num r \<Rightarrow> [r] | _ \<Rightarrow> []) ss)"




text \<open>
  The matcher as the specification writes it. The active identities are the profiles
  whose selection flag is not explicitly false, an absent flag counting as true. The
  distance to an identity is the minimum of the distances to its samples, \<open>Infinity\<close>
  when it has none. For each active identity compute the distance to the identity, skip
  the identities for which it is \<open>Infinity\<close>, and among the rest classify the identity
  of minimum distance (the first one in the order of the profile list when several are at
  that distance): FLAGGED up to the threshold, POSSIBLE up to the threshold plus the
  band, and no match beyond.
\<close>

definition activeIdentities :: "person list \<Rightarrow> selection \<Rightarrow> person list" where
  "activeIdentities profiles selectionSet =
     filter (\<lambda>p. case map_of selectionSet (ident p) of None \<Rightarrow> True | Some flag \<Rightarrow> flag)
       profiles"

definition trueDistanceToIdentity :: "real list \<Rightarrow> person \<Rightarrow> jsnum" where
  "trueDistanceToIdentity q p =
     (if sampleDistances q (samplesOrEmpty p) = [] then PInf
      else Num (Min (set (sampleDistances q (samplesOrEmpty p)))))"

definition trueDistances :: "real list \<Rightarrow> person list \<Rightarrow> (person \<times> real) list" where
  "trueDistances q active =
     concat (map (\<lambda>p. case trueDistanceToIdentity q p of Num r \<Rightarrow> [(p, r)] | _ \<Rightarrow> []) active)"

fun closest :: "(person \<times> real) list \<Rightarrow> (person \<times> real) option" where
  "closest [] = None"
| "closest (c # cs) =
     (case closest cs of
        None \<Rightarrow> Some c
      | Some c' \<Rightarrow> if snd c \<le> snd c' then Some c else Some c')"

definition classify ::
  "(person \<times> real) option \<Rightarrow> real \<Rightarrow> real \<Rightarrow> match option" where
  "classify c threshold possibleBand =
     (case c of
        None \<Rightarrow> None
      | Some (p, r) \<Rightarrow>
          if r \<le> threshold then Some (mkMatch p r threshold Flagged)
          else if r \<le> threshold + possibleBand then Some (mkMatch p r threshold Possible)
          else None)"

definition spec_match :: "real list \<Rightarrow> person list \<Rightarrow> real \<Rightarrow> real \<Rightarrow> match option" where
  "spec_match q active threshold possibleBand =
     classify (closest (trueDistances q active)) threshold possibleBand"

text \<open>
  The same classification with the upper limit of the POSSIBLE tier given as a number of
  the program instead of the exact sum, and the matcher that classifies with it the
  distances that the program reports, those of the scan with its early exit.
\<close>

definition classifyUpTo ::
  "(person \<times> real) option \<Rightarrow> real \<Rightarrow> jsnum \<Rightarrow> match option" where
  "classifyUpTo c threshold limit =
     (case c of
        None \<Rightarrow> None
      | Some (p, r) \<Rightarrow>
          if r \<le> threshold then Some (mkMatch p r threshold Flagged)
          else if js_le (Num r) limit then Some (mkMatch p r threshold Possible)
          else None)"

definition reportedDistances :: "real list \<Rightarrow> person list \<Rightarrow> (person \<times> real) list" where
  "reportedDistances q active =
     concat (map (\<lambda>p. case bestDistanceToIdentity q p of Num r \<Rightarrow> [(p, r)] | _ \<Rightarrow> []) active)"

definition reported_match ::
  "real list \<Rightarrow> person list \<Rightarrow> real \<Rightarrow> jsnum \<Rightarrow> match option" where
  "reported_match q active threshold limit =
     classifyUpTo (closest (reportedDistances q active)) threshold limit"

text \<open>
  The matches that the loop of \<open>matchesForDescriptor\<close> pushes, from the distances of the
  pool: the hits, and the possibles.
\<close>

definition flaggedOf :: "real \<Rightarrow> (person \<times> real) list \<Rightarrow> match list" where
  "flaggedOf thr cs = map (\<lambda>(p, r). mkMatch p r thr Flagged) (filter (\<lambda>c. snd c \<le> thr) cs)"

definition possibleOf :: "real \<Rightarrow> (person \<times> real) list \<Rightarrow> match list" where
  "possibleOf thr cs =
     map (\<lambda>(p, r). mkMatch p r thr Possible)
       (filter (\<lambda>c. \<not> snd c \<le> thr \<and> js_le (Num (snd c)) (possibleLimit thr)) cs)"

text \<open>
  The tier of a face is the level of its best match, CLEAR when it has none. Tiers are
  ordered by severity: CLEAR, POSSIBLE, FLAGGED.
\<close>

definition faceLevel :: "faceResult \<Rightarrow> tier" where
  "faceLevel fr = (case best fr of None \<Rightarrow> Clear | Some m \<Rightarrow> level m)"

fun severity :: "tier \<Rightarrow> nat" where
  "severity Clear = 0"
| "severity Possible = 1"
| "severity Flagged = 2"

section \<open>Properties of the rounding\<close>

lemma rhe_error: "\<bar>of_int (rhe y) - y\<bar> \<le> 1 / 2"
  unfolding rhe_def Let_def by (auto simp add: abs_if) linarith+

lemma rhe_of_int: "rhe (of_int n) = n"
  by (simp add: rhe_def)

lemma rhe_nonneg: "0 \<le> y \<Longrightarrow> 0 \<le> rhe y"
  unfolding rhe_def Let_def by (auto simp add: even_iff_mod_2_eq_zero) 

lemma rhe_le_int: "y \<le> of_int n \<Longrightarrow> rhe y \<le> n"
proof -
  assume a: "y \<le> of_int n"
  show ?thesis
  proof (cases "y = of_int n")
    case True then show ?thesis by (simp add: rhe_of_int)
  next
    case False
    with a have "y < of_int n" by simp
    then have "\<lfloor>y\<rfloor> < n" by (simp add: floor_less_iff)
    then show ?thesis unfolding rhe_def Let_def by auto
  qed
qed

lemma ulp_pos: "0 < ulp x"
  by (simp add: ulp_def)

lemma rnd_error_ulp: "\<bar>rnd x - x\<bar> \<le> ulp x / 2"
proof -
  have "rnd x - x = (of_int (rhe (x / ulp x)) - x / ulp x) * ulp x"
    using ulp_pos [of x] by (simp add: rnd_def field_simps)
  then have "\<bar>rnd x - x\<bar> = \<bar>of_int (rhe (x / ulp x)) - x / ulp x\<bar> * ulp x"
    using ulp_pos [of x] by (simp add: abs_mult)
  also have "\<dots> \<le> 1 / 2 * ulp x"
    using rhe_error [of "x / ulp x"] ulp_pos [of x] by (intro mult_right_mono) simp_all
  finally show ?thesis by simp
qed

lemma ulp_bound: "ulp x / 2 \<le> \<bar>x\<bar> / 2 ^ 53 + 1 / 2 ^ 1075"
proof (cases "- 1022 \<le> \<lfloor>log 2 \<bar>x\<bar>\<rfloor> \<and> x \<noteq> 0")
  case True
  then have e: "expo x = \<lfloor>log 2 \<bar>x\<bar>\<rfloor>" by (simp add: expo_def)
  have "2 powr of_int \<lfloor>log 2 \<bar>x\<bar>\<rfloor> \<le> 2 powr log 2 \<bar>x\<bar>"
    by (intro powr_mono) simp_all
  also have "\<dots> = \<bar>x\<bar>" using True by simp
  finally have "2 powr of_int (expo x) \<le> \<bar>x\<bar>" by (simp add: e)
  moreover have "ulp x = 2 powr of_int (expo x) / 2 ^ 52"
    by (simp add: ulp_def powr_diff powr_realpow [symmetric])
  ultimately have "ulp x / 2 \<le> \<bar>x\<bar> / 2 ^ 53" by (simp add: field_simps)
  then show ?thesis by (simp add: add_increasing2)
next
  case False
  then have e: "expo x = - 1022" by (auto simp add: expo_def)
  have "ulp x = 1 / 2 ^ 1074"
    by (simp add: ulp_def e powr_minus_divide powr_realpow [symmetric])
  then show ?thesis by simp
qed

lemma rnd_error: "\<bar>rnd x - x\<bar> \<le> \<bar>x\<bar> / 2 ^ 53 + 1 / 2 ^ 1075"
  using rnd_error_ulp [of x] ulp_bound [of x] by linarith

lemma rnd_nonneg: "0 \<le> x \<Longrightarrow> 0 \<le> rnd x"
  using ulp_pos [of x] rhe_nonneg [of "x / ulp x"] by (simp add: rnd_def)

lemma rnd_0: "rnd 0 = 0"
  by (simp add: rnd_def rhe_def)

text \<open>Evaluation at a value whose binade is known.\<close>

lemma expo_eq:
  "2 powr of_int e \<le> \<bar>x\<bar> \<Longrightarrow> \<bar>x\<bar> < 2 powr of_int (e + 1) \<Longrightarrow> - 1022 \<le> e \<Longrightarrow> expo x = e"
proof -
  assume a: "2 powr of_int e \<le> \<bar>x\<bar>" and b: "\<bar>x\<bar> < 2 powr of_int (e + 1)" and c: "- 1022 \<le> e"
  from a have nz: "x \<noteq> 0" by (auto simp add: not_le)
  have "\<lfloor>log 2 \<bar>x\<bar>\<rfloor> = e"
  proof (rule floor_unique)
    show "of_int e \<le> log 2 \<bar>x\<bar>" using a nz by (simp add: le_log_iff)
    show "log 2 \<bar>x\<bar> < of_int e + 1" using b nz by (simp add: log_less_iff add.commute)
  qed
  with nz c show ?thesis by (simp add: expo_def)
qed

lemma powr_neg_nat: "2 powr of_int (- int k) = 1 / (2::real) ^ k"
  by (simp add: powr_minus_divide powr_realpow)

lemma rnd_eval_pos:
  "2 ^ n \<le> \<bar>x\<bar> \<Longrightarrow> \<bar>x\<bar> < 2 * 2 ^ n \<Longrightarrow> n \<le> 52 \<Longrightarrow>
   rnd x = of_int (rhe (x * 2 ^ (52 - n))) / 2 ^ (52 - n)"
proof -
  assume a: "2 ^ n \<le> \<bar>x\<bar>" and b: "\<bar>x\<bar> < 2 * 2 ^ n" and c: "n \<le> 52"
  have "expo x = int n"
    using a b by (intro expo_eq) (simp_all add: powr_realpow powr_add)
  then have "ulp x = 2 powr (- real (52 - n))"
    using c by (simp add: ulp_def)
  then have "ulp x = 1 / 2 ^ (52 - n)"
    by (simp add: powr_minus_divide powr_realpow)
  then show ?thesis by (simp add: rnd_def)
qed

lemma rnd_eval_neg:
  "1 / 2 ^ n \<le> \<bar>x\<bar> \<Longrightarrow> \<bar>x\<bar> < 2 / 2 ^ n \<Longrightarrow> n \<le> 1022 \<Longrightarrow>
   rnd x = of_int (rhe (x * 2 ^ (52 + n))) / 2 ^ (52 + n)"
proof -
  assume a: "1 / 2 ^ n \<le> \<bar>x\<bar>" and b: "\<bar>x\<bar> < 2 / 2 ^ n" and c: "n \<le> 1022"
  have p: "2 powr (1 - real n) = 2 / 2 ^ n"
    by (simp add: powr_diff powr_realpow)
  have "expo x = - int n"
    using a b c by (intro expo_eq) (simp_all add: powr_realpow powr_minus_divide p)
  then have "expo x - 52 = - int (52 + n)" by simp
  then have "ulp x = 2 powr of_int (- int (52 + n))"
    by (simp only: ulp_def)
  then have "ulp x = 1 / 2 ^ (52 + n)"
    by (simp only: powr_neg_nat)
  then show ?thesis by (simp add: rnd_def)
qed

lemma rnd_nonpos: "x \<le> 0 \<Longrightarrow> rnd x \<le> 0"
proof -
  assume "x \<le> 0"
  then have "x / ulp x \<le> of_int 0" using ulp_pos [of x] by (simp add: divide_le_0_iff)
  then have "rhe (x / ulp x) \<le> 0" by (rule rhe_le_int)
  then show ?thesis using ulp_pos [of x] by (simp add: rnd_def mult_le_0_iff)
qed

lemma rnd_error_small: "\<bar>rnd x - x\<bar> \<le> \<bar>x\<bar> / 2 ^ 53 + 1 / 2 ^ 100"
proof -
  have "(1::real) / 2 ^ 1075 \<le> 1 / 2 ^ 100"
    by (intro divide_left_mono power_increasing) simp_all
  with rnd_error [of x] show ?thesis by linarith
qed

lemma fl_Num: "\<bar>x\<bar> \<le> 2 ^ 1020 \<Longrightarrow> fl x = Num (rnd x)"
proof -
  assume a: "\<bar>x\<bar> \<le> 2 ^ 1020"
  have "\<bar>rnd x\<bar> \<le> \<bar>x\<bar> + \<bar>rnd x - x\<bar>" by linarith
  also have "\<dots> \<le> \<bar>x\<bar> + (\<bar>x\<bar> / 2 ^ 53 + 1 / 2 ^ 100)"
    using rnd_error_small [of x] by linarith
  also have "\<dots> \<le> \<bar>x\<bar> + (\<bar>x\<bar> + 1)"
  proof -
    have "\<bar>x\<bar> / 2 ^ 53 \<le> \<bar>x\<bar>" by (simp add: field_simps)
    moreover have "(1::real) / 2 ^ 100 \<le> 1" by simp
    ultimately show ?thesis by linarith
  qed
  also have "\<dots> \<le> 2 ^ 1020 + (2 ^ 1020 + 2 ^ 1020)"
    using a by (intro add_mono) (simp_all add: one_le_power)
  also have "\<dots> < (2::real) ^ 1024"
  proof -
    have "(2::real) ^ 1020 + (2 ^ 1020 + 2 ^ 1020) < 4 * 2 ^ 1020" by simp
    also have "\<dots> = 2 ^ 1022" by simp
    also have "\<dots> \<le> 2 ^ 1024" by (intro power_increasing) simp_all
    finally show ?thesis .
  qed
  finally show ?thesis by (simp add: fl_def)
qed



lemma fl_Num_small: "\<bar>x\<bar> \<le> 2 ^ 20 \<Longrightarrow> fl x = Num (rnd x)"
proof -
  assume "\<bar>x\<bar> \<le> 2 ^ 20"
  also have "(2::real) ^ 20 \<le> 2 ^ 1020" by (intro power_increasing) simp_all
  finally show ?thesis by (rule fl_Num)
qed

text \<open>Rounding is monotone.\<close>

lemma rhe_ge_int: "of_int n \<le> y \<Longrightarrow> n \<le> rhe y"
proof -
  assume a: "of_int n \<le> y"
  then have "n \<le> \<lfloor>y\<rfloor>" by (simp add: le_floor_iff)
  then show ?thesis unfolding rhe_def Let_def by auto
qed

lemma rhe_mono: "a \<le> b \<Longrightarrow> rhe a \<le> rhe b"
proof (cases "\<lfloor>a\<rfloor> = \<lfloor>b\<rfloor>")
  case True
  assume "a \<le> b"
  with True show ?thesis unfolding rhe_def Let_def by auto
next
  case False
  assume ab: "a \<le> b"
  then have "\<lfloor>a\<rfloor> \<le> \<lfloor>b\<rfloor>" by (rule floor_mono)
  with False have lt: "\<lfloor>a\<rfloor> + 1 \<le> \<lfloor>b\<rfloor>" by simp
  have "rhe a \<le> \<lfloor>a\<rfloor> + 1" unfolding rhe_def Let_def by auto
  also note lt
  also have "\<lfloor>b\<rfloor> \<le> rhe b" by (intro rhe_ge_int) simp
  finally show ?thesis .
qed

lemma rhe_minus: "rhe (- y) = - rhe y"
proof (cases "y = of_int \<lfloor>y\<rfloor>")
  case True
  then obtain n where "y = of_int n" ..
  then have "- y = of_int (- n)" by simp
  with \<open>y = of_int n\<close> show ?thesis by (simp only: rhe_of_int)
next
  case False
  then have "\<lceil>y\<rceil> = \<lfloor>y\<rfloor> + 1" by (simp add: ceiling_altdef)
  moreover have "\<lfloor>- y\<rfloor> = - \<lceil>y\<rceil>" by (simp add: ceiling_def)
  ultimately have f: "\<lfloor>- y\<rfloor> = - \<lfloor>y\<rfloor> - 1" by simp
  show ?thesis unfolding rhe_def Let_def f by (auto simp add: algebra_simps)
qed


lemma expo_abs: "expo (- x) = expo x"
  by (simp add: expo_def)

lemma ulp_minus: "ulp (- x) = ulp x"
  by (simp add: ulp_def expo_abs)

lemma rnd_minus: "rnd (- x) = - rnd x"
  by (simp add: rnd_def ulp_minus rhe_minus)

lemma expo_ge: "- 1022 \<le> expo x"
  by (simp add: expo_def)

lemma expo_mono: "\<bar>x\<bar> \<le> \<bar>y\<bar> \<Longrightarrow> expo x \<le> expo y"
proof (cases "x = 0")
  case True
  then show ?thesis using expo_ge [of y] by (simp add: expo_def)
next
  case False
  assume a: "\<bar>x\<bar> \<le> \<bar>y\<bar>"
  with False have y: "y \<noteq> 0" by auto
  from False a have "log 2 \<bar>x\<bar> \<le> log 2 \<bar>y\<bar>" by simp
  then have "\<lfloor>log 2 \<bar>x\<bar>\<rfloor> \<le> \<lfloor>log 2 \<bar>y\<bar>\<rfloor>" by (rule floor_mono)
  with False y show ?thesis by (simp add: expo_def)
qed

lemma below_next_binade: "\<bar>x\<bar> < 2 powr of_int (expo x + 1)"
proof (cases "x = 0")
  case True
  then show ?thesis by simp
next
  case False
  have "log 2 \<bar>x\<bar> < of_int (\<lfloor>log 2 \<bar>x\<bar>\<rfloor> + 1)" by simp
  also have "\<dots> \<le> of_int (expo x + 1)" using False by (simp add: expo_def)
  finally have "log 2 \<bar>x\<bar> < of_int (expo x + 1)" .
  with False show ?thesis by (simp add: log_less_iff)
qed

lemma above_binade: "- 1022 < expo x \<Longrightarrow> 2 powr of_int (expo x) \<le> \<bar>x\<bar>"
proof -
  assume a: "- 1022 < expo x"
  then have nz: "x \<noteq> 0" by (auto simp add: expo_def)
  with a have "expo x = \<lfloor>log 2 \<bar>x\<bar>\<rfloor>" by (simp add: expo_def split: if_splits)
  then have "of_int (expo x) \<le> log 2 \<bar>x\<bar>" by simp
  with nz show ?thesis by (simp add: le_log_iff)
qed

lemma ulp_times: "2 ^ k * ulp x = 2 powr of_int (expo x - 52 + int k)"
  by (simp add: ulp_def powr_add powr_realpow)

lemma rnd_le_binade: "0 \<le> x \<Longrightarrow> rnd x \<le> 2 powr of_int (expo x + 1)"
proof -
  assume "0 \<le> x"
  with below_next_binade [of x] have "x < 2 powr of_int (expo x + 1)" by simp
  also have "\<dots> = 2 ^ 53 * ulp x" by (simp only: ulp_times) (simp add: add.commute)
  finally have "x / ulp x \<le> of_int (2 ^ 53)" using ulp_pos [of x] by (simp add: field_simps)
  then have "rhe (x / ulp x) \<le> 2 ^ 53" by (rule rhe_le_int)
  then have "(of_int (rhe (x / ulp x)) :: real) \<le> of_int (2 ^ 53)" by (simp only: of_int_le_iff)
  then have "rnd x \<le> 2 ^ 53 * ulp x"
    unfolding rnd_def using ulp_pos [of x] by (intro mult_right_mono) simp_all
  also have "\<dots> = 2 powr of_int (expo x + 1)" by (simp only: ulp_times) (simp add: add.commute)
  finally show ?thesis .
qed

lemma rnd_ge_binade: "0 \<le> x \<Longrightarrow> - 1022 < expo x \<Longrightarrow> 2 powr of_int (expo x) \<le> rnd x"
proof -
  assume a: "0 \<le> x" and b: "- 1022 < expo x"
  have "2 ^ 52 * ulp x = 2 powr of_int (expo x)" by (simp only: ulp_times) simp
  with above_binade [OF b] a have "2 ^ 52 * ulp x \<le> x" by simp
  then have "of_int (2 ^ 52) \<le> x / ulp x" using ulp_pos [of x] by (simp add: field_simps)
  then have "2 ^ 52 \<le> rhe (x / ulp x)" by (rule rhe_ge_int)
  then have "(of_int (2 ^ 52) :: real) \<le> of_int (rhe (x / ulp x))" by (simp only: of_int_le_iff)
  then have "2 ^ 52 * ulp x \<le> rnd x"
    unfolding rnd_def using ulp_pos [of x] by (intro mult_right_mono) simp_all
  then show ?thesis by (simp only: ulp_times) simp
qed

lemma rnd_mono_nonneg: "0 \<le> x \<Longrightarrow> x \<le> y \<Longrightarrow> rnd x \<le> rnd y"
proof (cases "expo x = expo y")
  case True
  assume a: "0 \<le> x" "x \<le> y"
  from True have u: "ulp x = ulp y" by (simp add: ulp_def)
  from a have "x / ulp y \<le> y / ulp y" using ulp_pos [of y] by (simp add: divide_right_mono)
  then have "rhe (x / ulp y) \<le> rhe (y / ulp y)" by (rule rhe_mono)
  then have "(of_int (rhe (x / ulp y)) :: real) \<le> of_int (rhe (y / ulp y))"
    by (simp only: of_int_le_iff)
  then show ?thesis
    unfolding rnd_def u using ulp_pos [of y] by (intro mult_right_mono) simp_all
next
  case False
  assume a: "0 \<le> x" "x \<le> y"
  then have "expo x \<le> expo y" by (intro expo_mono) simp
  with False have lt: "expo x + 1 \<le> expo y" by simp
  with expo_ge [of x] have b: "- 1022 < expo y" by linarith
  have "rnd x \<le> 2 powr of_int (expo x + 1)" using a by (intro rnd_le_binade)
  also have "\<dots> \<le> 2 powr of_int (expo y)" using lt by (intro powr_mono) simp_all
  also have "\<dots> \<le> rnd y" using a b by (intro rnd_ge_binade) simp_all
  finally show ?thesis .
qed

lemma rnd_mono: "x \<le> y \<Longrightarrow> rnd x \<le> rnd y"
proof -
  assume a: "x \<le> y"
  consider "0 \<le> x" | "y \<le> 0" | "x < 0" "0 < y" by linarith
  then show ?thesis
  proof cases
    case 1
    with a show ?thesis by (intro rnd_mono_nonneg)
  next
    case 2
    with a have "rnd (- y) \<le> rnd (- x)" by (intro rnd_mono_nonneg) simp_all
    then show ?thesis by (simp add: rnd_minus)
  next
    case 3
    then have "rnd x \<le> 0" "0 \<le> rnd y" by (simp_all add: rnd_nonpos rnd_nonneg)
    then show ?thesis by simp
  qed
qed

lemma js_le_fl:
  "js_le (Num r) (fl a) \<longleftrightarrow> (if 2 ^ 1024 \<le> \<bar>rnd a\<bar> then 0 < a else r \<le> rnd a)"
  by (simp add: fl_def signed_inf_def)

lemma js_le_fl_mono:
  assumes "a \<le> b" and "js_le (Num r) (fl a)"
  shows "js_le (Num r) (fl b)"
proof (cases "2 ^ 1024 \<le> \<bar>rnd a\<bar>")
  case True
  with assms have a: "0 < a" by (simp add: js_le_fl)
  then have "0 \<le> rnd a" by (intro rnd_nonneg) simp
  with True have "2 ^ 1024 \<le> rnd a" by simp
  also have "rnd a \<le> rnd b" using assms(1) by (rule rnd_mono)
  finally have "2 ^ 1024 \<le> \<bar>rnd b\<bar>" by simp
  with a assms(1) show ?thesis by (simp add: js_le_fl)
next
  case False
  with assms have r: "r \<le> rnd a" by (simp add: js_le_fl)
  also have "rnd a \<le> rnd b" using assms(1) by (rule rnd_mono)
  finally have rb: "r \<le> rnd b" .
  show ?thesis
  proof (cases "2 ^ 1024 \<le> \<bar>rnd b\<bar>")
    case big: True
    have "0 < b"
    proof (rule ccontr)
      assume "\<not> 0 < b"
      then have b0: "b \<le> 0" by simp
      then have "rnd b \<le> 0" by (rule rnd_nonpos)
      with big have "rnd b \<le> - (2 ^ 1024)" by simp
      moreover have "rnd a \<le> rnd b" using assms(1) by (rule rnd_mono)
      ultimately have "rnd a \<le> - (2 ^ 1024)" by linarith
      then have "2 ^ 1024 \<le> \<bar>rnd a\<bar>" by simp
      with False show False ..
    qed
    with big show ?thesis by (simp add: js_le_fl)
  next
    case small: False
    with rb show ?thesis by (simp add: js_le_fl)
  qed
qed

text \<open>Evaluation of an operation whose exact result lies in a known binade.\<close>

lemma fl_zero: "fl 0 = Num 0"
  by (simp add: fl_def rnd_0)

lemma fl_eval_pos:
  "2 ^ n \<le> \<bar>x\<bar> \<Longrightarrow> \<bar>x\<bar> < 2 * 2 ^ n \<Longrightarrow> n \<le> 19 \<Longrightarrow>
   fl x = Num (of_int (rhe (x * 2 ^ (52 - n))) / 2 ^ (52 - n))"
proof -
  assume a: "2 ^ n \<le> \<bar>x\<bar>" and b: "\<bar>x\<bar> < 2 * 2 ^ n" and c: "n \<le> 19"
  have "(2::real) * 2 ^ n = 2 ^ Suc n" by simp
  also have "\<dots> \<le> 2 ^ 20" using c by (intro power_increasing) simp_all
  finally have "\<bar>x\<bar> \<le> 2 ^ 20" using b by simp
  then have "fl x = Num (rnd x)" by (rule fl_Num_small)
  moreover have "rnd x = of_int (rhe (x * 2 ^ (52 - n))) / 2 ^ (52 - n)"
    using a b c by (intro rnd_eval_pos) simp_all
  ultimately show ?thesis by simp
qed

lemma fl_eval_neg:
  "1 / 2 ^ n \<le> \<bar>x\<bar> \<Longrightarrow> \<bar>x\<bar> < 2 / 2 ^ n \<Longrightarrow> n \<le> 1022 \<Longrightarrow>
   fl x = Num (of_int (rhe (x * 2 ^ (52 + n))) / 2 ^ (52 + n))"
proof -
  assume a: "1 / 2 ^ n \<le> \<bar>x\<bar>" and b: "\<bar>x\<bar> < 2 / 2 ^ n" and c: "n \<le> 1022"
  have "(2::real) / 2 ^ n \<le> 2 / 1" by (intro divide_left_mono) simp_all
  with b have "\<bar>x\<bar> \<le> 2 ^ 20" by simp
  then have "fl x = Num (rnd x)" by (rule fl_Num_small)
  moreover have "rnd x = of_int (rhe (x * 2 ^ (52 + n))) / 2 ^ (52 + n)"
    using a b c by (rule rnd_eval_neg)
  ultimately show ?thesis by simp
qed

lemma fl_tenth: "fl (1 / 10) = Num (3602879701896397 / 36028797018963968)"
  by (subst fl_eval_neg [where n = 4]) (simp_all add: rhe_def)

section \<open>Properties of the distance\<close>

lemma js_add_NaN: "js_add NaN b = NaN" "js_add a NaN = NaN"
  by (cases b; simp) (cases a; simp)

lemma dist_loop_NaN: "dist_loop a b i NaN = NaN"
proof (induction a b i NaN rule: dist_loop.induct)
  case (1 a b i)
  then show ?case by (subst dist_loop.simps) (simp add: Let_def js_add_NaN)
qed

text \<open>When \<open>b\<close> is at least as long as \<open>a\<close>, every read is in range.\<close>

lemma dist_loop_le:
  "length a \<le> length b \<Longrightarrow>
   dist_loop a b i (Num s) = Num (s + (\<Sum>k = i..<length a. (a ! k - b ! k)\<^sup>2))"
proof (induction a b i "Num s" arbitrary: s rule: dist_loop.induct)
  case (1 a b i)
  show ?case
  proof (cases "i < length a")
    case True
    then have "i < length b" using 1(2) by simp
    with True 1 show ?thesis
      by (subst dist_loop.simps)
        (simp add: Let_def elem_def js_sub_def sum.atLeast_Suc_lessThan add.assoc power2_eq_square)
  next
    case False
    then show ?thesis by (subst dist_loop.simps) simp
  qed
qed

text \<open>When \<open>b\<close> is shorter, the read at index \<open>length b\<close> turns the sum into \<open>NaN\<close>.\<close>

lemma dist_loop_gt:
  "length b < length a \<Longrightarrow> i \<le> length b \<Longrightarrow> dist_loop a b i (Num s) = NaN"
proof (induction a b i "Num s" arbitrary: s rule: dist_loop.induct)
  case (1 a b i)
  show ?case
  proof (cases "i < length b")
    case True
    with 1 show ?thesis
      by (subst dist_loop.simps) (simp add: Let_def elem_def js_sub_def)
  next
    case False
    with 1 have "i = length b" by simp
    with 1 show ?thesis
      by (subst dist_loop.simps) (simp add: Let_def elem_def js_sub_def dist_loop_NaN js_add_NaN)
  qed
qed

lemma dist_vec_le:
  "length a \<le> length b \<Longrightarrow> dist_vec a b = Num (sqrt (\<Sum>k<length a. (a ! k - b ! k)\<^sup>2))"
  by (simp add: dist_vec_def dist_loop_le sum_nonneg not_less atLeast0LessThan)

lemma dist_vec_gt: "length b < length a \<Longrightarrow> dist_vec a b = NaN"
  by (simp add: dist_vec_def dist_loop_gt)

lemma dist_vec_cases: "dist_vec a b = NaN \<or> (\<exists>r\<ge>0. dist_vec a b = Num r)"
  by (cases "length a \<le> length b") (simp_all add: dist_vec_le dist_vec_gt sum_nonneg)

lemma dist_vec_single: "dist_vec [x] [y] = Num \<bar>x - y\<bar>"
  by (simp add: dist_vec_le)

text \<open>
  Claim C3, as amended. The claim says that the distance of two embeddings of different
  lengths fails with a distinct error. \<open>dist\<close> has no length check and raises nothing:
  when \<open>a\<close> is the shorter one it returns the Euclidean distance of \<open>a\<close> and the first
  \<open>length a\<close> components of \<open>b\<close>, and when \<open>a\<close> is the longer one it returns \<open>NaN\<close>.
\<close>

theorem dist_length_mismatch:
  "length a \<noteq> length b \<Longrightarrow>
   dist_vec a b =
     (if length a < length b then Num (sqrt (\<Sum>k<length a. (a ! k - b ! k)\<^sup>2)) else NaN)"
  by (simp add: dist_vec_le dist_vec_gt)

theorem dist_length_mismatch_witness:
  "length [1::real] \<noteq> length [1, 5::real] \<and> dist_vec [1] [1, 5] = Num 0"
  using dist_length_mismatch [of "[1]" "[1, 5]"] by simp

text \<open>
  The claim fails at the query \<open>[1]\<close> and the sample \<open>[1, 5]\<close>: the distance is the
  number 0, as for equal embeddings. The other way round the distance is \<open>NaN\<close>, and the
  scan of the samples skips it, since every comparison with \<open>NaN\<close> is false.
\<close>

theorem dist_mismatch_counterexample:
  "length [1::real] \<noteq> length [1, 5::real] \<and> dist_vec [1] [1, 5] = Num 0
   \<and> dist_vec [1, 5] [1] = NaN \<and> scanSamples [1, 5] [[1]] PInf = PInf"
  by (simp add: dist_vec_le dist_vec_gt)

section \<open>Properties of the scan of one identity's samples\<close>

lemma cutoff_binary64: "rnd d = d \<Longrightarrow> d < rnd (1 / 5) \<longleftrightarrow> d < 1 / 5"
proof -
  assume a: "rnd d = d"
  have v: "rnd (1 / 5) = 3602879701896397 / 18014398509481984"
    by (subst rnd_eval_neg [where n = 3]) (simp_all add: rhe_def)
  show ?thesis
  proof
    assume b: "d < rnd (1 / 5)"
    show "d < 1 / 5"
    proof (rule ccontr)
      assume "\<not> d < 1 / 5"
      then have "1 / 5 \<le> d" by simp
      then have "rnd (1 / 5) \<le> rnd d" by (rule rnd_mono)
      with a b show False by simp
    qed
  next
    assume "d < 1 / 5"
    also have "1 / 5 < rnd (1 / 5)" by (simp add: v)
    finally show "d < rnd (1 / 5)" .
  qed
qed

lemma sampleDistances_Nil: "sampleDistances q [] = []"
  by (simp add: sampleDistances_def)

lemma sampleDistances_Cons:
  "sampleDistances q (s # ss) =
     (case dist_vec q s of Num r \<Rightarrow> r # sampleDistances q ss | _ \<Rightarrow> sampleDistances q ss)"
  by (simp add: sampleDistances_def split: jsnum.splits)

lemma Min_insert_insert:
  "finite A \<Longrightarrow> Min (insert (b::real) (insert r A)) = Min (insert (min b r) A)"
  by (cases "A = {}") (simp_all add: min.assoc)

text \<open>Once the running best is a number not below the cutoff.\<close>

lemma scanSamples_Num_none_below:
  "\<forall>r\<in>set (sampleDistances q ss). 1 / 5 \<le> r \<Longrightarrow> 1 / 5 \<le> b \<Longrightarrow>
   scanSamples q ss (Num b) = Num (Min (insert b (set (sampleDistances q ss))))"
proof (induction ss arbitrary: b)
  case Nil
  then show ?case by (simp add: sampleDistances_Nil)
next
  case (Cons s ss)
  from dist_vec_cases [of q s] show ?case
  proof
    assume "dist_vec q s = NaN"
    with Cons show ?thesis
      by (simp add: sampleDistances_Cons Let_def)
  next
    assume "\<exists>r\<ge>0. dist_vec q s = Num r"
    then obtain r where r: "dist_vec q s = Num r" by blast
    with Cons.prems have r5: "1 / 5 \<le> r" and rest: "\<forall>r\<in>set (sampleDistances q ss). 1 / 5 \<le> r"
      by (simp_all add: sampleDistances_Cons)
    from r5 Cons.prems(2) have m5: "1 / 5 \<le> min b r" by simp
    have "scanSamples q (s # ss) (Num b) = scanSamples q ss (Num (min b r))"
      using r r5 Cons.prems(2) by (auto simp add: Let_def min_def not_less)
    also have "\<dots> = Num (Min (insert (min b r) (set (sampleDistances q ss))))"
      by (rule Cons.IH [OF rest m5])
    also have "\<dots> = Num (Min (insert b (set (sampleDistances q (s # ss)))))"
      using r by (simp add: sampleDistances_Cons Min_insert_insert del: Min_insert)
    finally show ?thesis .
  qed
qed

lemma scanSamples_PInf_none_below:
  "\<forall>r\<in>set (sampleDistances q ss). 1 / 5 \<le> r \<Longrightarrow>
   scanSamples q ss PInf =
     (if sampleDistances q ss = [] then PInf else Num (Min (set (sampleDistances q ss))))"
proof (induction ss)
  case Nil
  then show ?case by (simp add: sampleDistances_Nil)
next
  case (Cons s ss)
  from dist_vec_cases [of q s] show ?case
  proof
    assume "dist_vec q s = NaN"
    with Cons show ?thesis
      by (simp add: sampleDistances_Cons Let_def)
  next
    assume "\<exists>r\<ge>0. dist_vec q s = Num r"
    then obtain r where r: "dist_vec q s = Num r" by blast
    with Cons.prems have r5: "1 / 5 \<le> r" and rest: "\<forall>r\<in>set (sampleDistances q ss). 1 / 5 \<le> r"
      by (simp_all add: sampleDistances_Cons)
    have "scanSamples q (s # ss) PInf = scanSamples q ss (Num r)"
      using r r5 by (simp add: Let_def not_less)
    also have "\<dots> = Num (Min (insert r (set (sampleDistances q ss))))"
      by (rule scanSamples_Num_none_below [OF rest r5])
    finally show ?thesis using r by (simp add: sampleDistances_Cons)
  qed
qed

text \<open>The scan stops at the first sample below the cutoff.\<close>

lemma scanSamples_first_below:
  "find (\<lambda>r. r < 1 / 5) (sampleDistances q ss) = Some r \<Longrightarrow>
   b = PInf \<or> (\<exists>x\<ge>1 / 5. b = Num x) \<Longrightarrow> scanSamples q ss b = Num r"
proof (induction ss arbitrary: b)
  case Nil
  then show ?case by (simp add: sampleDistances_Nil)
next
  case (Cons s ss)
  from dist_vec_cases [of q s] show ?case
  proof
    assume "dist_vec q s = NaN"
    with Cons show ?thesis
      by (auto simp add: sampleDistances_Cons Let_def not_less)
  next
    assume "\<exists>r\<ge>0. dist_vec q s = Num r"
    then obtain d where d: "dist_vec q s = Num d" by blast
    show ?thesis
    proof (cases "d < 1 / 5")
      case True
      with d Cons.prems show ?thesis
        by (auto simp add: sampleDistances_Cons Let_def)
    next
      case False
      with d Cons.prems(1) have f: "find (\<lambda>r. r < 1 / 5) (sampleDistances q ss) = Some r"
        by (simp add: sampleDistances_Cons)
      let ?b' = "if js_lt (Num d) b then Num d else b"
      from False Cons.prems(2) have b': "?b' = PInf \<or> (\<exists>x\<ge>1 / 5. ?b' = Num x)"
        by (auto simp add: not_less)
      from False Cons.prems(2) have "\<not> js_lt ?b' (Num (1 / 5))"
        by (auto simp add: not_less)
      then have "scanSamples q (s # ss) b = scanSamples q ss ?b'"
        using d by (simp add: Let_def)
      with Cons.IH [OF f b'] show ?thesis by simp
    qed
  qed
qed

text \<open>
  Claim C2, as amended. The claim says that the early exit never changes the reported
  distance when the true minimum lies below the cutoff 0.20. The scan stops at the first
  sample whose distance is below the cutoff, so the reported distance is the distance of
  that sample: below the cutoff and not below the true minimum, yet any later, closer
  sample is not looked at. When no sample lies below the cutoff the reported distance is
  the true minimum over all samples (\<open>Infinity\<close> when no sample has a distance).
\<close>

theorem early_exit_reported:
  "bestDistanceToIdentity q p =
     (case find (\<lambda>r. r < 1 / 5) (sampleDistances q (samplesOrEmpty p)) of
        Some r \<Rightarrow> Num r
      | None \<Rightarrow>
          if sampleDistances q (samplesOrEmpty p) = [] then PInf
          else Num (Min (set (sampleDistances q (samplesOrEmpty p)))))"
proof (cases "find (\<lambda>r. r < 1 / 5) (sampleDistances q (samplesOrEmpty p))")
  case None
  then have "\<forall>r\<in>set (sampleDistances q (samplesOrEmpty p)). 1 / 5 \<le> r"
    by (auto simp add: find_None_iff not_less)
  with None show ?thesis
    by (simp add: bestDistanceToIdentity_def scanSamples_PInf_none_below)
next
  case (Some r)
  then show ?thesis
    by (simp add: bestDistanceToIdentity_def scanSamples_first_below)
qed

theorem early_exit_reported_witness:
  "bestDistanceToIdentity [0]
     \<lparr>ident = ''a'', pname = ''A'', samples = Some [[19 / 100], [1 / 100]]\<rparr> = Num (19 / 100)"
  using early_exit_reported
    [of "[0]" "\<lparr>ident = ''a'', pname = ''A'', samples = Some [[19 / 100], [1 / 100]]\<rparr>"]
  by (simp add: sampleDistances_def samplesOrEmpty_def dist_vec_single)

text \<open>
  The claim fails for the query \<open>[0]\<close> and the samples \<open>[0.19]\<close>, \<open>[0.01]\<close>: the true
  minimum 0.01 lies below the cutoff, and the reported distance is 0.19.
\<close>

theorem early_exit_counterexample:
  "sampleDistances [0] [[19 / 100], [1 / 100]] = [19 / 100, 1 / 100]
   \<and> Min (set [19 / 100, 1 / 100 :: real]) = 1 / 100
   \<and> (1 / 100 :: real) < 1 / 5
   \<and> bestDistanceToIdentity [0]
        \<lparr>ident = ''a'', pname = ''A'', samples = Some [[19 / 100], [1 / 100]]\<rparr> = Num (19 / 100)
   \<and> Num (19 / 100) \<noteq> Num (1 / 100)"
  by (simp add: sampleDistances_def samplesOrEmpty_def dist_vec_single
        bestDistanceToIdentity_def Let_def)

section \<open>Properties of the selection map\<close>

lemma map_of_addMissing:
  "map_of (addMissing ps sel) k =
     (if map_of sel k = None \<and> k \<in> ident ` set ps then Some True else map_of sel k)"
proof (induction ps arbitrary: sel)
  case Nil
  then show ?case by simp
next
  case (Cons p ps)
  show ?case
    by (simp add: Cons.IH update_conv' map_of_eq_None_iff [symmetric])
qed

lemma map_of_removeUnknown:
  "map_of (removeUnknown ks known sel) k =
     (if k \<in> set ks \<and> k \<notin> known then None else map_of sel k)"
proof (induction ks arbitrary: sel)
  case Nil
  then show ?case by simp
next
  case (Cons x ks)
  show ?case
    by (auto simp add: Cons.IH delete_conv')
qed

lemma map_of_syncSelection:
  "map_of (syncSelection people sel) k =
     (if k \<in> ident ` set people
      then (case map_of sel k of None \<Rightarrow> Some True | Some b \<Rightarrow> Some b)
      else None)"
proof -
  let ?added = "addMissing people sel"
  have keys: "k \<notin> set (map fst ?added) \<Longrightarrow> map_of ?added k = None"
    by (simp add: map_of_eq_None_iff)
  have "map_of (syncSelection people sel) k =
          (if k \<in> set (map fst ?added) \<and> k \<notin> set (map ident people) then None
           else map_of ?added k)"
    by (simp only: syncSelection_def Let_def map_of_removeUnknown)
  also have "\<dots> = (if k \<in> set (map ident people) then map_of ?added k else None)"
    using keys by (cases "k \<in> set (map fst ?added)") simp_all
  also have "\<dots> = (if k \<in> ident ` set people
      then (case map_of sel k of None \<Rightarrow> Some True | Some b \<Rightarrow> Some b) else None)"
    by (simp add: map_of_addMissing split: option.splits)
  finally show ?thesis .
qed

text \<open>
  Claim C10. Resynchronising the selection map never changes the flag of an id that is
  both in the profile list and in the map before: an id of the profile list keeps its
  flag when it has one and gets \<open>true\<close> when it has none, and every other id is
  removed. So a deselected profile stays deselected for as long as it is in the list.
\<close>

theorem syncSelection_keeps_flags:
  "(k \<in> ident ` set people \<longrightarrow> map_of scanSelection k = Some b \<longrightarrow>
      map_of (syncSelection people scanSelection) k = Some b)
   \<and> map_of (syncSelection people scanSelection) k =
       (if k \<in> ident ` set people
        then (case map_of scanSelection k of None \<Rightarrow> Some True | Some v \<Rightarrow> Some v)
        else None)"
  by (simp add: map_of_syncSelection)

theorem syncSelection_keeps_flags_witness:
  "syncSelection
     [\<lparr>ident = ''a'', pname = ''A'', samples = Some []\<rparr>,
      \<lparr>ident = ''b'', pname = ''B'', samples = Some []\<rparr>]
     [(''a'', False), (''c'', True)] = [(''a'', False), (''b'', True)]
   \<and> map_of (syncSelection
     [\<lparr>ident = ''a'', pname = ''A'', samples = Some []\<rparr>,
      \<lparr>ident = ''b'', pname = ''B'', samples = Some []\<rparr>]
     [(''a'', False), (''c'', True)]) ''a'' = Some False"
  using syncSelection_keeps_flags
    [of "''a''" "[\<lparr>ident = ''a'', pname = ''A'', samples = Some []\<rparr>,
      \<lparr>ident = ''b'', pname = ''B'', samples = Some []\<rparr>]" "[(''a'', False), (''c'', True)]" False]
  by (simp add: syncSelection_def)

section \<open>Properties of the confidence\<close>










lemma fl_Num_le:
  "0 \<le> x \<Longrightarrow> x \<le> 2 ^ 1000 + 2 \<Longrightarrow> fl x = Num (rnd x)"
proof -
  assume a: "0 \<le> x" "x \<le> 2 ^ 1000 + 2"
  have "(2::real) ^ 1000 + 2 \<le> 2 ^ 1000 + 2 ^ 1000" by (simp add: self_le_power)
  also have "\<dots> = 2 ^ 1001" by simp
  also have "\<dots> \<le> 2 ^ 1020" by (intro power_increasing) simp_all
  finally have "\<bar>x\<bar> \<le> 2 ^ 1020" using a by simp
  then show ?thesis by (rule fl_Num)
qed

lemma rnd_le_succ: "0 \<le> x \<Longrightarrow> rnd x \<le> x + x / 2 ^ 53 + 1 / 2 ^ 100"
  using rnd_error_small [of x] by (simp add: abs_if split: if_splits)













text \<open>The confidence on concrete inputs, every rounding carried out.\<close>

lemma conf_eval_1:
  "distanceToConfidence (Num (1 / 2)) (Num (11 / 20)) = Num 44"
proof -
  have s1: "fl (117093590311632897 / 180143985094819840) = Num (5854679515581645 / 9007199254740992)"
    by (subst fl_eval_neg [where n = 1]) (simp_all add: rhe_def)
  have s2: "fl (8106479329266893 / 9007199254740992) = Num (8106479329266893 / 9007199254740992)"
    by (subst fl_eval_neg [where n = 1]) (simp_all add: rhe_def)
  have q: "fl (4503599627370496 / 8106479329266893) = Num (2501999792983609 / 4503599627370496)"
    by (subst fl_eval_neg [where n = 1]) (simp_all add: rhe_def)
  have t: "fl (2001599834386887 / 4503599627370496) = Num (2001599834386887 / 4503599627370496)"
    by (subst fl_eval_neg [where n = 2]) (simp_all add: rhe_def)
  have m: "fl (50039995859672175 / 1125899906842624) = Num (3127499741229511 / 70368744177664)"
    by (subst fl_eval_pos [where n = 5]) (simp_all add: rhe_def)
  show ?thesis
    by (simp add: distanceToConfidence_def Let_def fl_sub_def fl_tenth BORDERLINE_BAND_def s1 s2 q t m)
qed

lemma conf_eval_2:
  "distanceToConfidence (Num (3 / 5)) (Num (11 / 20)) = Num 33"
proof -
  have s1: "fl (117093590311632897 / 180143985094819840) = Num (5854679515581645 / 9007199254740992)"
    by (subst fl_eval_neg [where n = 1]) (simp_all add: rhe_def)
  have s2: "fl (8106479329266893 / 9007199254740992) = Num (8106479329266893 / 9007199254740992)"
    by (subst fl_eval_neg [where n = 1]) (simp_all add: rhe_def)
  have q: "fl (27021597764222976 / 40532396646334465) = Num (6004799503160661 / 9007199254740992)"
    by (subst fl_eval_neg [where n = 1]) (simp_all add: rhe_def)
  have t: "fl (3002399751580331 / 9007199254740992) = Num (3002399751580331 / 9007199254740992)"
    by (subst fl_eval_neg [where n = 2]) (simp_all add: rhe_def)
  have m: "fl (75059993789508275 / 2251799813685248) = Num (4691249611844267 / 140737488355328)"
    by (subst fl_eval_pos [where n = 5]) (simp_all add: rhe_def)
  show ?thesis
    by (simp add: distanceToConfidence_def Let_def fl_sub_def fl_tenth BORDERLINE_BAND_def s1 s2 q t m)
qed

lemma conf_eval_3:
  "distanceToConfidence (Num (3 / 10)) (Num (3 / 5)) = Num 68"
proof -
  have s1: "fl (126100789566373889 / 180143985094819840) = Num (3152519739159347 / 4503599627370496)"
    by (subst fl_eval_neg [where n = 1]) (simp_all add: rhe_def)
  have s2: "fl (4278419646001971 / 4503599627370496) = Num (4278419646001971 / 4503599627370496)"
    by (subst fl_eval_neg [where n = 1]) (simp_all add: rhe_def)
  have q: "fl (2251799813685248 / 7130699410003285) = Num (5688757424046943 / 18014398509481984)"
    by (subst fl_eval_neg [where n = 2]) (simp_all add: rhe_def)
  have t: "fl (12325641085435041 / 18014398509481984) = Num (385176283919845 / 562949953421312)"
    by (subst fl_eval_neg [where n = 1]) (simp_all add: rhe_def)
  have m: "fl (9629407097996125 / 140737488355328) = Num (2407351774499031 / 35184372088832)"
    by (subst fl_eval_pos [where n = 6]) (simp_all add: rhe_def)
  show ?thesis
    by (simp add: distanceToConfidence_def Let_def fl_sub_def fl_tenth BORDERLINE_BAND_def s1 s2 q t m)
qed

lemma conf_eval_4:
  "distanceToConfidence_closest (Num (1 / 2)) (Num (11 / 20)) = Num 38"
proof -
  have s2: "fl (4 / 5) = Num (3602879701896397 / 4503599627370496)"
    by (subst fl_eval_neg [where n = 1]) (simp_all add: rhe_def)
  have q: "fl (2251799813685248 / 3602879701896397) = Num (5 / 8)"
    by (subst fl_eval_neg [where n = 1]) (simp_all add: rhe_def)
  have t: "fl (3 / 8) = Num (3 / 8)"
    by (subst fl_eval_neg [where n = 2]) (simp_all add: rhe_def)
  have m: "fl (75 / 2) = Num (75 / 2)"
    by (subst fl_eval_pos [where n = 5]) (simp_all add: rhe_def)
  show ?thesis
    by (simp add: distanceToConfidence_closest_def Let_def fl_sub_def s2 q t m)
qed



lemma conf_eval_7:
  "distanceToConfidence (Num (1 / 100)) (Num (1 / 20)) = Num 98"
proof -
  have s1: "fl (27021597764222977 / 180143985094819840) = Num (5404319552844595 / 36028797018963968)"
    by (subst fl_eval_neg [where n = 3]) (simp_all add: rhe_def)
  have s2: "fl (14411518807585587 / 36028797018963968) = Num (3602879701896397 / 9007199254740992)"
    by (subst fl_eval_neg [where n = 2]) (simp_all add: rhe_def)
  have q: "fl (2251799813685248 / 90071992547409925) = Num (7205759403792793 / 288230376151711744)"
    by (subst fl_eval_neg [where n = 6]) (simp_all add: rhe_def)
  have t: "fl (281024616747918951 / 288230376151711744) = Num (8782019273372467 / 9007199254740992)"
    by (subst fl_eval_neg [where n = 1]) (simp_all add: rhe_def)
  have m: "fl (219550481834311675 / 2251799813685248) = Num (195 / 2)"
    by (subst fl_eval_pos [where n = 6]) (simp_all add: rhe_def)
  show ?thesis
    by (simp add: distanceToConfidence_def Let_def fl_sub_def fl_tenth BORDERLINE_BAND_def s1 s2 q t m)
qed

lemma conf_eval_8:
  "distanceToConfidence (Num (1 / 100)) (Num (3 / 5)) = Num 99"
proof -
  have s1: "fl (126100789566373889 / 180143985094819840) = Num (3152519739159347 / 4503599627370496)"
    by (subst fl_eval_neg [where n = 1]) (simp_all add: rhe_def)
  have s2: "fl (4278419646001971 / 4503599627370496) = Num (4278419646001971 / 4503599627370496)"
    by (subst fl_eval_neg [where n = 1]) (simp_all add: rhe_def)
  have q: "fl (1125899906842624 / 106960491150049275) = Num (6068007918983405 / 576460752303423488)"
    by (subst fl_eval_neg [where n = 7]) (simp_all add: rhe_def)
  have t: "fl (570392744384440083 / 576460752303423488) = Num (2228096657751719 / 2251799813685248)"
    by (subst fl_eval_neg [where n = 1]) (simp_all add: rhe_def)
  have m: "fl (55702416443792975 / 562949953421312) = Num (3481401027737061 / 35184372088832)"
    by (subst fl_eval_pos [where n = 6]) (simp_all add: rhe_def)
  show ?thesis
    by (simp add: distanceToConfidence_def Let_def fl_sub_def fl_tenth BORDERLINE_BAND_def s1 s2 q t m)
qed

lemma conf_eval_9:
  "distanceToConfidence (Num (1 / 10)) (Num (3 / 5)) = Num 89"
proof -
  have s1: "fl (126100789566373889 / 180143985094819840) = Num (3152519739159347 / 4503599627370496)"
    by (subst fl_eval_neg [where n = 1]) (simp_all add: rhe_def)
  have s2: "fl (4278419646001971 / 4503599627370496) = Num (4278419646001971 / 4503599627370496)"
    by (subst fl_eval_neg [where n = 1]) (simp_all add: rhe_def)
  have q: "fl (2251799813685248 / 21392098230009855) = Num (7585009898729257 / 72057594037927936)"
    by (subst fl_eval_neg [where n = 4]) (simp_all add: rhe_def)
  have t: "fl (64472584139198679 / 72057594037927936) = Num (8059073017399835 / 9007199254740992)"
    by (subst fl_eval_neg [where n = 1]) (simp_all add: rhe_def)
  have m: "fl (201476825434995875 / 2251799813685248) = Num (6296150794843621 / 70368744177664)"
    by (subst fl_eval_pos [where n = 6]) (simp_all add: rhe_def)
  show ?thesis
    by (simp add: distanceToConfidence_def Let_def fl_sub_def fl_tenth BORDERLINE_BAND_def s1 s2 q t m)
qed





section \<open>Properties of the plausibility filter\<close>

lemma rnd_abs_le: "\<bar>x\<bar> \<le> 2 ^ 1000 \<Longrightarrow> \<bar>rnd x\<bar> \<le> 2 ^ 1001 + 1"
proof -
  assume a: "\<bar>x\<bar> \<le> 2 ^ 1000"
  define T :: real where "T = 2 ^ 1000"
  have "\<bar>x\<bar> / 2 ^ 53 \<le> \<bar>x\<bar>" by (simp add: field_simps)
  moreover have "(1::real) / 2 ^ 100 \<le> 1" by simp
  ultimately have "\<bar>rnd x\<bar> \<le> 2 * T + 1"
    using rnd_error_small [of x] a unfolding T_def [symmetric] by linarith
  then show ?thesis by (simp add: T_def)
qed

lemma fl_Num_1000: "\<bar>x\<bar> \<le> 2 ^ 1000 \<Longrightarrow> fl x = Num (rnd x)"
proof -
  assume "\<bar>x\<bar> \<le> 2 ^ 1000"
  also have "(2::real) ^ 1000 \<le> 2 ^ 1020" by (intro power_increasing) simp_all
  finally show ?thesis by (rule fl_Num)
qed

lemma fl_Num_quotient:
  assumes "\<bar>w\<bar> \<le> 2 ^ 1001 + 1" and "40 \<le> h"
  shows "fl (w / h) = Num (rnd (w / h))"
proof -
  have "\<bar>w / h\<bar> = \<bar>w\<bar> / h" using assms by simp
  also have "\<dots> \<le> \<bar>w\<bar> / 1" using assms by (intro divide_left_mono) simp_all
  also have "\<dots> \<le> 2 ^ 1001 + 1" using assms by simp
  also have "\<dots> \<le> (2::real) ^ 1001 + 2 ^ 1001" by (simp add: one_le_power)
  also have "\<dots> = 2 ^ 1002" by simp
  also have "\<dots> \<le> 2 ^ 1020" by (intro power_increasing) simp_all
  finally show ?thesis by (rule fl_Num)
qed

lemma isPlausibleFace_rounded:
  assumes "0 < detScale"
    and "\<bar>width d / detScale\<bar> \<le> 2 ^ 1000" and "\<bar>height d / detScale\<bar> \<le> 2 ^ 1000"
    and "\<bar>img_width img\<bar> \<le> 2 ^ 1000" and "\<bar>img_height img\<bar> \<le> 2 ^ 1000"
  shows "isPlausibleFace d detScale img =
     (\<not> ((case score d of None \<Rightarrow> 0 | Some s \<Rightarrow> s) < rnd MIN_DET_SCORE
         \<or> min (rnd (width d / detScale)) (rnd (height d / detScale)) < MIN_FACE_PX
         \<or> rnd (rnd (width d / detScale) / rnd (height d / detScale)) < rnd MIN_AR
         \<or> rnd MAX_AR < rnd (rnd (width d / detScale) / rnd (height d / detScale))
         \<or> rnd (img_width img * (3 / 4)) < rnd (width d / detScale)
         \<or> rnd (img_height img * (3 / 4)) < rnd (height d / detScale)))"
proof -
  define w where "w = rnd (width d / detScale)"
  define h where "h = rnd (height d / detScale)"
  define sc where "sc = (case score d of None \<Rightarrow> 0 | Some s \<Rightarrow> s)"
  have w: "fl_div (Num (width d)) (Num detScale) = Num w"
    and h: "fl_div (Num (height d)) (Num detScale) = Num h"
    using assms by (simp_all add: w_def h_def fl_Num_1000)
  have c: "fl MIN_DET_SCORE = Num (rnd MIN_DET_SCORE)" "fl MIN_AR = Num (rnd MIN_AR)"
    "fl MAX_AR = Num (rnd MAX_AR)"
    by (simp_all add: fl_Num_small MIN_DET_SCORE_def MIN_AR_def MAX_AR_def)
  have "\<bar>img_width img * (3 / 4)\<bar> \<le> 2 ^ 1000" "\<bar>img_height img * (3 / 4)\<bar> \<le> 2 ^ 1000"
    using assms(4,5) by (simp_all add: abs_mult)
  then have m: "fl_mul (Num (img_width img)) (Num (3 / 4)) = Num (rnd (img_width img * (3 / 4)))"
    "fl_mul (Num (img_height img)) (Num (3 / 4)) = Num (rnd (img_height img * (3 / 4)))"
    by (simp_all add: fl_Num_1000)
  have unfolded: "isPlausibleFace d detScale img =
      (if sc < rnd MIN_DET_SCORE then False
       else if min w h < MIN_FACE_PX then False
       else if js_lt (fl_div (Num w) (Num h)) (Num (rnd MIN_AR))
               \<or> js_gt (fl_div (Num w) (Num h)) (Num (rnd MAX_AR)) then False
       else if rnd (img_width img * (3 / 4)) < w \<or> rnd (img_height img * (3 / 4)) < h then False
       else True)"
    unfolding isPlausibleFace_def Let_def w h c m sc_def [symmetric]
    by (simp add: js_gt_def min_def)
  have main: "isPlausibleFace d detScale img =
     (\<not> (sc < rnd MIN_DET_SCORE \<or> min w h < MIN_FACE_PX \<or> rnd (w / h) < rnd MIN_AR
         \<or> rnd MAX_AR < rnd (w / h)
         \<or> rnd (img_width img * (3 / 4)) < w \<or> rnd (img_height img * (3 / 4)) < h))"
  proof (cases "min w h < MIN_FACE_PX")
    case True
    then show ?thesis unfolding unfolded by simp
  next
    case False
    then have h40: "40 \<le> h" by (simp add: MIN_FACE_PX_def min_def split: if_splits)
    then have "h \<noteq> 0" by simp
    moreover have "fl (w / h) = Num (rnd (w / h))"
      using rnd_abs_le [OF assms(2)] h40 unfolding w_def [symmetric] by (rule fl_Num_quotient)
    ultimately have "fl_div (Num w) (Num h) = Num (rnd (w / h))" by simp
    with False show ?thesis unfolding unfolded by (simp add: js_gt_def)
  qed
  show ?thesis using main unfolding w_def h_def sc_def .
qed

lemma rnd_consts:
  "rnd (7 / 20) = 3152519739159347 / 9007199254740992"
  "rnd (13 / 20) = 5854679515581645 / 9007199254740992"
  "rnd (8 / 5) = 3602879701896397 / 2251799813685248"
  by (subst rnd_eval_neg [where n = 2], simp_all add: rhe_def)
    (subst rnd_eval_neg [where n = 1], simp_all add: rhe_def,
     subst rnd_eval_pos [where n = 0], simp_all add: rhe_def)

lemma rnd_example:
  "rnd (208 / 3) = 4878899596318037 / 70368744177664"
  "rnd (320 / 3) = 7505999378950827 / 70368744177664"
  "rnd (4878899596318037 / 7505999378950827) = 1463669878895411 / 2251799813685248"
  "rnd 600 = 600" "rnd 900 = 900" "rnd 100 = 100" "rnd 110 = 110" "rnd 750 = 750"
  "rnd (10 / 11) = 8188362958855447 / 9007199254740992"
  by (subst rnd_eval_pos [where n = 6], simp_all add: rhe_def)
    (subst rnd_eval_pos [where n = 6], simp_all add: rhe_def,
     subst rnd_eval_neg [where n = 1], simp_all add: rhe_def,
     subst rnd_eval_pos [where n = 9], simp_all add: rhe_def,
     subst rnd_eval_pos [where n = 9], simp_all add: rhe_def,
     subst rnd_eval_pos [where n = 6], simp_all add: rhe_def,
     subst rnd_eval_pos [where n = 6], simp_all add: rhe_def,
     subst rnd_eval_pos [where n = 9], simp_all add: rhe_def,
     subst rnd_eval_neg [where n = 1], simp_all add: rhe_def)

text \<open>
  Claim C7, as amended. With a detection scale above 0 and box and image dimensions of
  ordinary size (up to \<open>2^1000\<close>), the filter rejects a detection exactly when its score
  (0 when absent) is below \<open>MIN_DET_SCORE\<close>, or the smaller side of its box, mapped to the
  source image, is below \<open>MIN_FACE_PX\<close>, or the aspect ratio is outside
  \<open>[MIN_AR, MAX_AR]\<close>, or the mapped box is wider than 0.75 of the image width or higher
  than 0.75 of the image height, where every quantity is the one the program computes:
  the mapped width and height are the rounded quotients by the scale, the aspect ratio is
  the rounded quotient of the mapped width and height, and the constants are the binary64
  values of their literals. The filter is a function of its arguments only.
\<close>

theorem isPlausibleFace_iff:
  assumes "0 < detScale"
    and "\<bar>width d / detScale\<bar> \<le> 2 ^ 1000" and "\<bar>height d / detScale\<bar> \<le> 2 ^ 1000"
    and "\<bar>img_width img\<bar> \<le> 2 ^ 1000" and "\<bar>img_height img\<bar> \<le> 2 ^ 1000"
  shows "isPlausibleFace d detScale img =
     (\<not> ((case score d of None \<Rightarrow> 0 | Some s \<Rightarrow> s) < rnd MIN_DET_SCORE
         \<or> min (rnd (width d / detScale)) (rnd (height d / detScale)) < MIN_FACE_PX
         \<or> rnd (rnd (width d / detScale) / rnd (height d / detScale)) < rnd MIN_AR
         \<or> rnd MAX_AR < rnd (rnd (width d / detScale) / rnd (height d / detScale))
         \<or> rnd (img_width img * (3 / 4)) < rnd (width d / detScale)
         \<or> rnd (img_height img * (3 / 4)) < rnd (height d / detScale)))"
  using assms by (rule isPlausibleFace_rounded)

theorem isPlausibleFace_iff_witness:
  "isPlausibleFace \<lparr>descriptor = [], width = 200, height = 220, score = Some (7 / 8)\<rparr> 2
        \<lparr>img_width = 1000, img_height = 800\<rparr>
   \<and> \<not> isPlausibleFace \<lparr>descriptor = [], width = 200, height = 220, score = Some (1 / 8)\<rparr> 2
        \<lparr>img_width = 1000, img_height = 800\<rparr>
   \<and> \<not> isPlausibleFace \<lparr>descriptor = [], width = 78, height = 120, score = Some (7 / 8)\<rparr> (9 / 8)
        \<lparr>img_width = 800, img_height = 1200\<rparr>"
  using isPlausibleFace_iff [of 2 "\<lparr>descriptor = [], width = 200, height = 220, score = Some (7 / 8)\<rparr>"
      "\<lparr>img_width = 1000, img_height = 800\<rparr>"]
    isPlausibleFace_iff [of 2 "\<lparr>descriptor = [], width = 200, height = 220, score = Some (1 / 8)\<rparr>"
      "\<lparr>img_width = 1000, img_height = 800\<rparr>"]
    isPlausibleFace_iff [of "9 / 8" "\<lparr>descriptor = [], width = 78, height = 120, score = Some (7 / 8)\<rparr>"
      "\<lparr>img_width = 800, img_height = 1200\<rparr>"]
  by (simp add: MIN_DET_SCORE_def MIN_FACE_PX_def MIN_AR_def MAX_AR_def rnd_consts rnd_example)

text \<open>
  The claim, read on the exact width and height of the box, fails for a box of 78 by 120
  at scale 1.125 in an image of 800 by 1200: none of the four conditions holds (the ratio
  78 / 120 is 0.65), and the filter rejects the detection, the computed ratio of the
  mapped sides being the binary64 value just below 0.65.
\<close>

theorem isPlausibleFace_counterexample:
  "(0::real) < 9 / 8
   \<and> \<not> (7 / 8 < MIN_DET_SCORE)
   \<and> \<not> (min (78 / (9 / 8)) (120 / (9 / 8)) < MIN_FACE_PX)
   \<and> \<not> (78 / 120 < MIN_AR) \<and> \<not> (MAX_AR < 78 / 120)
   \<and> \<not> (3 / 4 * 800 < (78::real) / (9 / 8)) \<and> \<not> (3 / 4 * 1200 < (120::real) / (9 / 8))
   \<and> \<not> isPlausibleFace \<lparr>descriptor = [], width = 78, height = 120, score = Some (7 / 8)\<rparr> (9 / 8)
        \<lparr>img_width = 800, img_height = 1200\<rparr>"
  using isPlausibleFace_rounded [of "9 / 8" "\<lparr>descriptor = [], width = 78, height = 120, score = Some (7 / 8)\<rparr>"
      "\<lparr>img_width = 800, img_height = 1200\<rparr>"]
  by (simp add: MIN_DET_SCORE_def MIN_FACE_PX_def MIN_AR_def MAX_AR_def rnd_consts rnd_example)

section \<open>Properties of the scan button\<close>

text \<open>
  Claim C8, as amended. With no selected person, or no sample among the selected persons,
  the handler never scans an image. It reports the message about the selected people when
  the models are ready and at least one file is chosen; before that it checks the models
  (message \<open>Models not ready yet.\<close>) and the files (with no file it returns without a
  message).
\<close>

theorem scan_refused:
  "selectedPeople people scanSelection = [] \<or> poolSamples (selectedPeople people scanSelection) = 0 \<Longrightarrow>
   (\<forall>vs. btnScan_click modelsReady files people scanSelection thr \<noteq> Scanned vs)
   \<and> btnScan_click modelsReady files people scanSelection thr =
       (if \<not> modelsReady then StatusOnly ''Models not ready yet.''
        else if files = [] then NoEffect
        else StatusOnly ''No selected people with samples. Check filters and enroll samples first.'')"
  by (auto simp add: btnScan_click_def Let_def)

theorem scan_refused_witness:
  "selectedPeople [\<lparr>ident = ''a'', pname = ''A'', samples = Some [[0]]\<rparr>] [(''a'', False)] = []
   \<and> btnScan_click True [\<lparr>firstCall = [], fallbackCall = []\<rparr>]
        [\<lparr>ident = ''a'', pname = ''A'', samples = Some [[0]]\<rparr>] [(''a'', False)] (6 / 10) =
      StatusOnly ''No selected people with samples. Check filters and enroll samples first.''"
  using scan_refused [of "[\<lparr>ident = ''a'', pname = ''A'', samples = Some [[0]]\<rparr>]" "[(''a'', False)]"
      True "[\<lparr>firstCall = [], fallbackCall = []\<rparr>]" "6 / 10"]
  by (simp add: selectedPeople_def)

text \<open>
  The claim says that the message about the missing people is reported whenever a scan
  is requested with no active identity. With nobody enrolled and no file chosen the
  handler returns without any message; with the models not ready it reports another one.
\<close>

theorem scan_refused_counterexample:
  "selectedPeople [] [] = []
   \<and> btnScan_click True [] [] [] (6 / 10) = NoEffect
   \<and> btnScan_click False [\<lparr>firstCall = [], fallbackCall = []\<rparr>] [] [] (6 / 10) =
       StatusOnly ''Models not ready yet.''"
  by (simp add: selectedPeople_def btnScan_click_def)

section \<open>Properties of the removal of repeated persons\<close>

lemma dedupeLoop_distinct:
  "distinct (map fst m) \<Longrightarrow> distinct (map fst (dedupeLoop list m))"
  by (induction list arbitrary: m) (simp_all add: distinct_update split: option.splits)

lemma dedupeLoop_keys:
  "fst ` set (dedupeLoop list m) = fst ` set m \<union> personId ` set list"
proof (induction list arbitrary: m)
  case Nil
  then show ?case by simp
next
  case (Cons item list)
  have "map_of m (personId item) \<noteq> None \<Longrightarrow> personId item \<in> fst ` set m"
    by (simp add: map_of_eq_None_iff)
  then show ?case
    by (auto simp add: Cons.IH dom_update split: option.splits)
qed

lemma dedupeLoop_lookup:
  "map_of (dedupeLoop list m) k = Some v \<Longrightarrow>
   (v \<in> set list \<and> personId v = k \<or> map_of m k = Some v)
   \<and> (\<forall>x\<in>set list. personId x = k \<longrightarrow> distance v \<le> distance x)
   \<and> (\<forall>v0. map_of m k = Some v0 \<longrightarrow> distance v \<le> distance v0)"
proof (induction list arbitrary: m)
  case Nil
  then show ?case by simp
next
  case (Cons item list)
  let ?m' = "case map_of m (personId item) of
      None \<Rightarrow> AList.update (personId item) item m
    | Some prev \<Rightarrow> if distance item < distance prev
        then AList.update (personId item) item m else m"
  have step: "dedupeLoop (item # list) m = dedupeLoop list ?m'"
    by (simp split: option.splits)
  from Cons.prems have "map_of (dedupeLoop list ?m') k = Some v"
    by (simp only: step)
  from Cons.IH [OF this]
  have ih: "v \<in> set list \<and> personId v = k \<or> map_of ?m' k = Some v"
    "\<forall>x\<in>set list. personId x = k \<longrightarrow> distance v \<le> distance x"
    "\<forall>v0. map_of ?m' k = Some v0 \<longrightarrow> distance v \<le> distance v0"
    by blast+
  show ?case
  proof (cases "personId item = k")
    case False
    then have "map_of ?m' k = map_of m k"
      by (simp add: update_conv' split: option.splits)
    with ih False show ?thesis by auto
  next
    case True
    show ?thesis
    proof (cases "map_of m k")
      case None
      with True have "map_of ?m' k = Some item" by (simp add: update_conv')
      with ih True None show ?thesis by auto
    next
      case (Some prev)
      show ?thesis
      proof (cases "distance item < distance prev")
        case True
        with \<open>personId item = k\<close> Some have "map_of ?m' k = Some item"
          by (simp add: update_conv')
        with ih \<open>personId item = k\<close> Some True show ?thesis by auto
      next
        case False
        with \<open>personId item = k\<close> Some have "map_of ?m' k = Some prev" by simp
        with ih \<open>personId item = k\<close> Some False show ?thesis by auto
      qed
    qed
  qed
qed

lemma dedupeLoop_entries:
  assumes "(k, v) \<in> set (dedupeLoop list [])"
  shows "v \<in> set list" and "personId v = k"
    and "\<forall>x\<in>set list. personId x = k \<longrightarrow> distance v \<le> distance x"
proof -
  have "distinct (map fst (dedupeLoop list []))" by (simp add: dedupeLoop_distinct)
  with assms have "map_of (dedupeLoop list []) k = Some v" by simp
  from dedupeLoop_lookup [OF this]
  show "v \<in> set list" and "personId v = k"
    and "\<forall>x\<in>set list. personId x = k \<longrightarrow> distance v \<le> distance x"
    by simp_all
qed

lemma dedupeLoop_values_keys:
  "map personId (map snd (dedupeLoop list [])) = map fst (dedupeLoop list [])"
  by (auto simp add: dedupeLoop_entries(2))

lemma dedupeByPerson_distinct: "distinct (map personId (dedupeByPerson list))"
proof -
  have "distinct (map personId (map snd (dedupeLoop list [])))"
    by (simp only: dedupeLoop_values_keys) (simp add: dedupeLoop_distinct)
  then have "distinct (map snd (dedupeLoop list []))"
    and "inj_on personId (set (map snd (dedupeLoop list [])))"
    by (simp_all only: distinct_map)
  then show ?thesis
    unfolding dedupeByPerson_def by (simp only: distinct_map distinct_sort set_sort)
qed

lemma dedupeByPerson_sorted: "sorted (map distance (dedupeByPerson list))"
  by (simp add: dedupeByPerson_def)

lemma dedupeByPerson_set:
  "m \<in> set (dedupeByPerson list) \<Longrightarrow>
   m \<in> set list \<and> (\<forall>x\<in>set list. personId x = personId m \<longrightarrow> distance m \<le> distance x)"
proof -
  assume "m \<in> set (dedupeByPerson list)"
  then obtain k where k: "(k, m) \<in> set (dedupeLoop list [])"
    by (auto simp add: dedupeByPerson_def)
  from dedupeLoop_entries [OF k] show ?thesis by simp
qed

lemma dedupeByPerson_ids: "personId ` set (dedupeByPerson list) = personId ` set list"
proof -
  have "personId ` set (dedupeByPerson list) = set (map personId (map snd (dedupeLoop list [])))"
    by (simp add: dedupeByPerson_def image_image)
  also have "\<dots> = fst ` set (dedupeLoop list [])"
    by (simp only: dedupeLoop_values_keys) simp
  finally show ?thesis by (simp add: dedupeLoop_keys)
qed

lemma dedupeByPerson_Nil_iff: "dedupeByPerson list = [] \<longleftrightarrow> list = []"
  using dedupeByPerson_ids [of list] by (metis image_is_empty set_empty)

section \<open>Properties of the matcher\<close>

lemma reportedDistances_Nil: "reportedDistances q [] = []"
  by (simp add: reportedDistances_def)

lemma reportedDistances_Cons:
  "reportedDistances q (p # pool) =
     (case bestDistanceToIdentity q p of
        Num r \<Rightarrow> (p, r) # reportedDistances q pool
      | _ \<Rightarrow> reportedDistances q pool)"
  by (simp add: reportedDistances_def split: jsnum.splits)

lemma matchLoop_eq:
  "matchLoop q thr pool (hs, ps) =
     (hs @ flaggedOf thr (reportedDistances q pool), ps @ possibleOf thr (reportedDistances q pool))"
proof (induction pool arbitrary: hs ps)
  case Nil
  then show ?case by (simp add: reportedDistances_Nil flaggedOf_def possibleOf_def)
next
  case (Cons p pool)
  show ?case
    by (cases "scanSamples q (samplesOrEmpty p) PInf")
      (simp_all add: Cons.IH reportedDistances_Cons bestDistanceToIdentity_def
        flaggedOf_def possibleOf_def Let_def)
qed

lemma closest_None_iff: "closest cs = None \<longleftrightarrow> cs = []"
  by (cases cs) (simp_all split: option.splits)

lemma closest_mem: "closest cs = Some c \<Longrightarrow> c \<in> set cs"
  by (induction cs arbitrary: c) (auto split: option.splits if_splits)

lemma closest_least: "closest cs = Some c \<Longrightarrow> c' \<in> set cs \<Longrightarrow> snd c \<le> snd c'"
proof (induction cs arbitrary: c)
  case Nil
  then show ?case by simp
next
  case (Cons x cs)
  then show ?case
    by (fastforce simp add: closest_None_iff split: option.splits if_splits)
qed

lemma sort_key_head:
  assumes "\<And>c. f (g c) = snd c"
  shows "(case sort_key f (map g cs) of [] \<Rightarrow> None | h # _ \<Rightarrow> Some h) = map_option g (closest cs)"
proof (induction cs)
  case Nil
  then show ?case by simp
next
  case (Cons c cs)
  show ?case
  proof (cases "sort_key f (map g cs)")
    case Nil
    with Cons show ?thesis by (simp add: closest_None_iff)
  next
    case (Cons h hs)
    with Cons.IH obtain c' where c': "closest cs = Some c'" "h = g c'"
      by (cases "closest cs") auto
    with Cons assms [of c] assms [of c'] show ?thesis by simp
  qed
qed

lemma closest_filter:
  assumes "\<And>c c'. c \<in> set cs \<Longrightarrow> c' \<in> set cs \<Longrightarrow> P c' \<Longrightarrow> snd c \<le> snd c' \<Longrightarrow> P c"
  shows "closest (filter P cs) =
     (case closest cs of None \<Rightarrow> None | Some c \<Rightarrow> if P c then Some c else None)"
  using assms
proof (induction cs)
  case Nil
  then show ?case by simp
next
  case (Cons x cs)
  have ih: "closest (filter P cs) =
     (case closest cs of None \<Rightarrow> None | Some c \<Rightarrow> if P c then Some c else None)"
    by (rule Cons.IH) (auto intro: Cons.prems)
  show ?case
  proof (cases "closest cs")
    case None
    then show ?thesis by (simp add: closest_None_iff)
  next
    case (Some m)
    then have m: "m \<in> set cs" by (rule closest_mem)
    show ?thesis
    proof (cases "P x")
      case True
      show ?thesis
      proof (cases "P m")
        case True
        with \<open>P x\<close> Some ih show ?thesis by simp
      next
        case False
        have "snd x \<le> snd m"
        proof (rule ccontr)
          assume "\<not> snd x \<le> snd m"
          then have "snd m \<le> snd x" by simp
          with Cons.prems [of m x] m \<open>P x\<close> have "P m" by simp
          with False show False ..
        qed
        with False \<open>P x\<close> Some ih show ?thesis by simp
      qed
    next
      case False
      show ?thesis
      proof (cases "snd x \<le> snd m")
        case True
        with Cons.prems [of x m] m False have "\<not> P m" by auto
        with True False Some ih show ?thesis by simp
      next
        case notle: False
        with False Some ih show ?thesis by simp
      qed
    qed
  qed
qed

lemma matchesForDescriptor_eq:
  "matchesForDescriptor people sel q thr =
     \<lparr>hits = sort_key distance (flaggedOf thr (reportedDistances q (selectedPeople people sel))),
      possibles = sort_key distance (possibleOf thr (reportedDistances q (selectedPeople people sel)))\<rparr>"
  by (simp add: matchesForDescriptor_def Let_def matchLoop_eq)

lemma distance_mkMatch: "distance (mkMatch p r thr lv) = r"
  by (simp add: mkMatch_def)

lemma hits_head:
  "(case sort_key distance (flaggedOf thr cs) of [] \<Rightarrow> None | h # _ \<Rightarrow> Some h) =
     (case closest cs of
        None \<Rightarrow> None
      | Some (p, r) \<Rightarrow> if r \<le> thr then Some (mkMatch p r thr Flagged) else None)"
proof -
  have "(case sort_key distance (flaggedOf thr cs) of [] \<Rightarrow> None | h # _ \<Rightarrow> Some h) =
      map_option (\<lambda>(p, r). mkMatch p r thr Flagged) (closest (filter (\<lambda>c. snd c \<le> thr) cs))"
    unfolding flaggedOf_def by (rule sort_key_head) (simp add: distance_mkMatch split: prod.splits)
  also have "closest (filter (\<lambda>c. snd c \<le> thr) cs) =
      (case closest cs of None \<Rightarrow> None | Some c \<Rightarrow> if snd c \<le> thr then Some c else None)"
    by (rule closest_filter) simp
  finally show ?thesis by (simp split: option.splits prod.splits)
qed

lemma closest_above:
  "\<forall>c\<in>set cs. \<not> snd c \<le> thr \<Longrightarrow> closest cs = Some (p, r) \<Longrightarrow> \<not> r \<le> thr"
proof -
  assume a: "\<forall>c\<in>set cs. \<not> snd c \<le> thr" and c: "closest cs = Some (p, r)"
  from c have "(p, r) \<in> set cs" by (rule closest_mem)
  with a have "\<not> snd (p, r) \<le> thr" by blast
  then show ?thesis by simp
qed

lemma js_le_trans: "r \<le> r' \<Longrightarrow> js_le (Num r') l \<Longrightarrow> js_le (Num r) l"
  by (cases l) simp_all

lemma possibles_head:
  assumes "\<forall>c\<in>set cs. \<not> snd c \<le> thr"
  shows "(case sort_key distance (possibleOf thr cs) of [] \<Rightarrow> None | h # _ \<Rightarrow> Some h) =
     (case closest cs of
        None \<Rightarrow> None
      | Some (p, r) \<Rightarrow>
          if js_le (Num r) (possibleLimit thr) then Some (mkMatch p r thr Possible) else None)"
proof -
  let ?P = "\<lambda>c. \<not> snd c \<le> thr \<and> js_le (Num (snd c)) (possibleLimit thr)"
  have "(case sort_key distance (possibleOf thr cs) of [] \<Rightarrow> None | h # _ \<Rightarrow> Some h) =
      map_option (\<lambda>(p, r). mkMatch p r thr Possible) (closest (filter ?P cs))"
    unfolding possibleOf_def by (rule sort_key_head) (simp add: distance_mkMatch split: prod.splits)
  also have "closest (filter ?P cs) =
      (case closest cs of None \<Rightarrow> None | Some c \<Rightarrow> if ?P c then Some c else None)"
    by (rule closest_filter) (use assms in \<open>auto intro: js_le_trans\<close>)
  also have "\<dots> = (case closest cs of None \<Rightarrow> None
      | Some c \<Rightarrow> if js_le (Num (snd c)) (possibleLimit thr) then Some c else None)"
    using closest_above [OF assms] by (auto split: option.splits)
  finally show ?thesis by (simp split: option.splits prod.splits)
qed

lemma flaggedOf_Nil_iff: "flaggedOf thr cs = [] \<longleftrightarrow> (\<forall>c\<in>set cs. \<not> snd c \<le> thr)"
  by (simp add: flaggedOf_def filter_empty_conv)

lemma best_eq_reported_match:
  "best (faceResultOf people sel thr d) =
     reported_match (descriptor d) (selectedPeople people sel) thr (possibleLimit thr)"
proof -
  let ?cs = "reportedDistances (descriptor d) (selectedPeople people sel)"
  let ?hs = "sort_key distance (flaggedOf thr ?cs)"
  let ?ps = "sort_key distance (possibleOf thr ?cs)"
  have b: "best (faceResultOf people sel thr d) =
      (case ?hs of h # _ \<Rightarrow> Some h | [] \<Rightarrow> (case ?ps of q # _ \<Rightarrow> Some q | [] \<Rightarrow> None))"
    by (simp add: faceResultOf_def matchesForDescriptor_eq Let_def split: list.splits)
  show ?thesis
  proof (cases "?hs")
    case Nil
    then have "flaggedOf thr ?cs = []" by (metis length_0_conv length_sort)
    then have none: "\<forall>c\<in>set ?cs. \<not> snd c \<le> thr" by (simp add: flaggedOf_Nil_iff)
    have "best (faceResultOf people sel thr d) = (case ?ps of [] \<Rightarrow> None | q # _ \<Rightarrow> Some q)"
      using Nil b by (simp split: list.splits)
    also have "\<dots> = (case closest ?cs of None \<Rightarrow> None
        | Some (p, r) \<Rightarrow>
            if js_le (Num r) (possibleLimit thr) then Some (mkMatch p r thr Possible) else None)"
      by (rule possibles_head [OF none])
    finally show ?thesis
      using closest_above [OF none]
      by (auto simp add: reported_match_def classifyUpTo_def split: option.splits)
  next
    case (Cons h hs)
    then have "best (faceResultOf people sel thr d) = (case ?hs of [] \<Rightarrow> None | h # _ \<Rightarrow> Some h)"
      using b by simp
    also have "\<dots> = (case closest ?cs of None \<Rightarrow> None
        | Some (p, r) \<Rightarrow> if r \<le> thr then Some (mkMatch p r thr Flagged) else None)"
      by (rule hits_head)
    finally have e: "best (faceResultOf people sel thr d) = (case closest ?cs of None \<Rightarrow> None
        | Some (p, r) \<Rightarrow> if r \<le> thr then Some (mkMatch p r thr Flagged) else None)" .
    from Cons b have "best (faceResultOf people sel thr d) \<noteq> None" by simp
    with e show ?thesis
      by (auto simp add: reported_match_def classifyUpTo_def split: option.splits if_splits)
  qed
qed

lemma empty_samples_PInf: "samplesOrEmpty p = [] \<Longrightarrow> bestDistanceToIdentity q p = PInf"
  by (simp add: bestDistanceToIdentity_def)

lemma reportedDistances_mem:
  "(p, r) \<in> set (reportedDistances q pool) \<longleftrightarrow> p \<in> set pool \<and> bestDistanceToIdentity q p = Num r"
  by (auto simp add: reportedDistances_def split: jsnum.splits)

lemma closestLoop_eq:
  "closestLoop q thr pool b =
     (case closest (reportedDistances q pool) of
        None \<Rightarrow> b
      | Some (p, r) \<Rightarrow>
          (case b of
             None \<Rightarrow> Some (mkCandidate p r thr)
           | Some prev \<Rightarrow> if r < distance prev then Some (mkCandidate p r thr) else b))"
proof (induction pool arbitrary: b)
  case Nil
  then show ?case by (simp add: reportedDistances_Nil)
next
  case (Cons p pool)
  show ?case
  proof (cases "samplesOrEmpty p = []")
    case True
    then show ?thesis
      by (simp add: Cons.IH reportedDistances_Cons empty_samples_PInf)
  next
    case False
    show ?thesis
    proof (cases "scanSamples q (samplesOrEmpty p) PInf")
      case (Num r)
      with False show ?thesis
        by (auto simp add: Cons.IH reportedDistances_Cons bestDistanceToIdentity_def
              mkCandidate_def Let_def split: option.splits)
    qed (use False in \<open>simp_all add: Cons.IH reportedDistances_Cons bestDistanceToIdentity_def
          Let_def\<close>)
  qed
qed

lemma bestMatchForDescriptor_eq:
  "bestMatchForDescriptor people sel q thr =
     (case closest (reportedDistances q (selectedPeople people sel)) of
        None \<Rightarrow> None
      | Some (p, r) \<Rightarrow> if r \<le> thr then Some (mkCandidate p r thr) else None)"
  by (auto simp add: bestMatchForDescriptor_def closestLoop_eq mkCandidate_def split: option.splits)

section \<open>Properties of the verdict of an image\<close>

lemma collectImage_eq:
  "collectImage frs (hs, ps) =
     (hs @ concat (map hits frs), ps @ concat (map possibles (filter (\<lambda>fr. hits fr = []) frs)))"
  by (induction frs arbitrary: hs ps) simp_all

lemma imageVerdict_status:
  "status (imageVerdict frs) =
     (if \<exists>fr\<in>set frs. hits fr \<noteq> [] then Flagged
      else if \<exists>fr\<in>set frs. possibles fr \<noteq> [] then Possible else Clear)"
proof -
  have p: "(\<forall>fr\<in>set frs. hits fr = []) \<Longrightarrow> filter (\<lambda>fr. hits fr = []) frs = frs"
    by (simp add: filter_id_conv)
  show ?thesis
    using p by (auto simp add: imageVerdict_def collectImage_eq Let_def dedupeByPerson_Nil_iff)
qed

lemma hits_level:
  "h \<in> set (hits (faceResultOf people sel thr d)) \<Longrightarrow> level h = Flagged"
  by (auto simp add: faceResultOf_def matchesForDescriptor_eq Let_def flaggedOf_def mkMatch_def)

lemma possibles_level:
  "h \<in> set (possibles (faceResultOf people sel thr d)) \<Longrightarrow> level h = Possible"
  by (auto simp add: faceResultOf_def matchesForDescriptor_eq Let_def possibleOf_def mkMatch_def)

lemma best_cases:
  "best (faceResultOf people sel thr d) =
     (case hits (faceResultOf people sel thr d) of
        h # _ \<Rightarrow> Some h
      | [] \<Rightarrow> (case possibles (faceResultOf people sel thr d) of q # _ \<Rightarrow> Some q | [] \<Rightarrow> None))"
  by (simp add: faceResultOf_def Let_def split: list.splits)

lemma faceLevel_cases:
  "faceLevel (faceResultOf people sel thr d) =
     (if hits (faceResultOf people sel thr d) \<noteq> [] then Flagged
      else if possibles (faceResultOf people sel thr d) \<noteq> [] then Possible else Clear)"
proof -
  let ?fr = "faceResultOf people sel thr d"
  show ?thesis
  proof (cases "hits ?fr")
    case (Cons h hs)
    then have "level h = Flagged" using hits_level [of h people sel thr d] by simp
    with Cons show ?thesis by (simp add: faceLevel_def best_cases)
  next
    case Nil
    show ?thesis
    proof (cases "possibles ?fr")
      case (Cons h hs)
      then have "level h = Possible" using possibles_level [of h people sel thr d] by simp
      with Nil Cons show ?thesis by (simp add: faceLevel_def best_cases)
    next
      case pn: Nil
      with Nil show ?thesis by (simp add: faceLevel_def best_cases)
    qed
  qed
qed

lemma faceLevel_Flagged_iff:
  "faceLevel (faceResultOf people sel thr d) = Flagged \<longleftrightarrow>
   hits (faceResultOf people sel thr d) \<noteq> []"
  by (simp add: faceLevel_cases)

lemma faceLevel_Possible_iff:
  "faceLevel (faceResultOf people sel thr d) = Possible \<longleftrightarrow>
   hits (faceResultOf people sel thr d) = [] \<and> possibles (faceResultOf people sel thr d) \<noteq> []"
  by (simp add: faceLevel_cases)

lemma scanImage_status:
  "status (scanImage people sel thr dets) =
     (if \<exists>fr\<in>set (map (faceResultOf people sel thr) (take MAX_FACES_PER_IMAGE dets)).
           faceLevel fr = Flagged then Flagged
      else if \<exists>fr\<in>set (map (faceResultOf people sel thr) (take MAX_FACES_PER_IMAGE dets)).
           faceLevel fr = Possible then Possible
      else Clear)"
proof -
  let ?frs = "map (faceResultOf people sel thr) (take MAX_FACES_PER_IMAGE dets)"
  have f: "\<And>fr. fr \<in> set ?frs \<Longrightarrow> (hits fr \<noteq> []) = (faceLevel fr = Flagged)"
    by (auto simp add: faceLevel_Flagged_iff)
  have p: "\<And>fr. fr \<in> set ?frs \<Longrightarrow> hits fr = [] \<Longrightarrow> (possibles fr \<noteq> []) = (faceLevel fr = Possible)"
    by (auto simp add: faceLevel_Possible_iff)
  have p': "\<And>fr. fr \<in> set ?frs \<Longrightarrow> faceLevel fr = Possible \<Longrightarrow> possibles fr \<noteq> []"
    by (auto simp add: faceLevel_Possible_iff)
  have "status (scanImage people sel thr dets) = status (imageVerdict ?frs)"
    by (simp add: scanImage_def Let_def)
  also have "\<dots> = (if \<exists>fr\<in>set ?frs. hits fr \<noteq> [] then Flagged
      else if \<exists>fr\<in>set ?frs. possibles fr \<noteq> [] then Possible else Clear)"
    by (rule imageVerdict_status)
  also have "\<dots> = (if \<exists>fr\<in>set ?frs. faceLevel fr = Flagged then Flagged
      else if \<exists>fr\<in>set ?frs. faceLevel fr = Possible then Possible else Clear)"
  proof (cases "\<exists>fr\<in>set ?frs. hits fr \<noteq> []")
    case True
    then have "\<exists>fr\<in>set ?frs. faceLevel fr = Flagged" using f by blast
    with True show ?thesis by simp
  next
    case False
    then have nf: "\<not> (\<exists>fr\<in>set ?frs. faceLevel fr = Flagged)" using f by blast
    from False have "(\<exists>fr\<in>set ?frs. possibles fr \<noteq> []) = (\<exists>fr\<in>set ?frs. faceLevel fr = Possible)"
      using p p' by blast
    with False nf show ?thesis by simp
  qed
  finally show ?thesis .
qed

lemma listForLabel_cases:
  "listForLabel (imageVerdict frs) = []
   \<or> (\<exists>xs. listForLabel (imageVerdict frs) = dedupeByPerson xs)"
  by (auto simp add: imageVerdict_def Let_def split: prod.splits)

lemma dedupeByPerson_Nil: "dedupeByPerson [] = []"
  by (simp add: dedupeByPerson_def)

lemma listForLabel_eq:
  "listForLabel (imageVerdict frs) =
     (if \<exists>fr\<in>set frs. hits fr \<noteq> [] then dedupeByPerson (concat (map hits frs))
      else dedupeByPerson (concat (map possibles frs)))"
proof (cases "\<exists>fr\<in>set frs. hits fr \<noteq> []")
  case True
  then show ?thesis
    by (auto simp add: imageVerdict_def collectImage_eq Let_def dedupeByPerson_Nil_iff)
next
  case False
  then have f: "filter (\<lambda>fr. hits fr = []) frs = frs" by (simp add: filter_id_conv)
  from False have h: "concat (map hits frs) = []" by simp
  have v: "imageVerdict frs =
      (let uniqPoss = dedupeByPerson (concat (map possibles frs));
           st = (if uniqPoss \<noteq> [] then Possible else Clear)
       in \<lparr>status = st, listForLabel = (if st = Possible then uniqPoss else []),
           faceCount = length frs\<rparr>)"
    unfolding imageVerdict_def collectImage_eq f h
    by (simp add: dedupeByPerson_Nil Let_def)
  show ?thesis
  proof (cases "dedupeByPerson (concat (map possibles frs)) = []")
    case True
    with False show ?thesis unfolding v by (simp add: Let_def)
  next
    case ne: False
    with False show ?thesis unfolding v by (simp add: Let_def)
  qed
qed

lemma faceLevel_eq:
  "faceLevel (faceResultOf people sel thr d) =
     (case closest (reportedDistances (descriptor d) (selectedPeople people sel)) of
        None \<Rightarrow> Clear
      | Some (p, r) \<Rightarrow>
          if r \<le> thr then Flagged
          else if js_le (Num r) (possibleLimit thr) then Possible else Clear)"
  by (simp add: faceLevel_def best_eq_reported_match reported_match_def classifyUpTo_def
        mkMatch_def split: option.splits prod.splits)

lemma possibleLimit_mono:
  "thr1 \<le> thr2 \<Longrightarrow> js_le (Num r) (possibleLimit thr1) \<Longrightarrow> js_le (Num r) (possibleLimit thr2)"
proof -
  assume a: "thr1 \<le> thr2" and b: "js_le (Num r) (possibleLimit thr1)"
  define c :: real where "c = 3602879701896397 / 36028797018963968"
  have c: "fl BORDERLINE_BAND = Num c"
    by (simp add: BORDERLINE_BAND_def fl_tenth c_def)
  from b have "js_le (Num r) (fl (thr1 + c))" by (simp add: possibleLimit_def c)
  moreover from a have "thr1 + c \<le> thr2 + c" by simp
  ultimately have "js_le (Num r) (fl (thr2 + c))" by (rule js_le_fl_mono [rotated])
  then show ?thesis by (simp add: possibleLimit_def c)
qed

lemma faceLevel_mono:
  "thr1 \<le> thr2 \<Longrightarrow>
   severity (faceLevel (faceResultOf people sel thr1 d))
     \<le> severity (faceLevel (faceResultOf people sel thr2 d))"
  using possibleLimit_mono [of thr1 thr2]
  by (auto simp add: faceLevel_eq split: option.splits prod.splits)

lemma severity_Flagged: "2 \<le> severity t \<longleftrightarrow> t = Flagged"
  by (cases t) simp_all

lemma severity_Possible: "Suc 0 \<le> severity t \<longleftrightarrow> t = Flagged \<or> t = Possible"
  by (cases t) simp_all

lemma scanImage_mono:
  assumes "thr1 \<le> thr2"
  shows "severity (status (scanImage people sel thr1 dets))
     \<le> severity (status (scanImage people sel thr2 dets))"
proof -
  let ?ds = "take MAX_FACES_PER_IMAGE dets"
  have st: "status (scanImage people sel thr dets) =
      (if \<exists>d\<in>set ?ds. faceLevel (faceResultOf people sel thr d) = Flagged then Flagged
       else if \<exists>d\<in>set ?ds. faceLevel (faceResultOf people sel thr d) = Possible then Possible
       else Clear)" for thr
    by (simp add: scanImage_status)
  show ?thesis
  proof (cases "status (scanImage people sel thr1 dets)")
    case Flagged
    then obtain d where d: "d \<in> set ?ds" "faceLevel (faceResultOf people sel thr1 d) = Flagged"
      unfolding st [of thr1] by (auto split: if_splits)
    with faceLevel_mono [OF assms, of people sel d]
    have "faceLevel (faceResultOf people sel thr2 d) = Flagged"
      by (simp add: severity_Flagged)
    with d have "status (scanImage people sel thr2 dets) = Flagged"
      unfolding st [of thr2] by auto
    with Flagged show ?thesis by simp
  next
    case Possible
    then obtain d where d: "d \<in> set ?ds" "faceLevel (faceResultOf people sel thr1 d) = Possible"
      unfolding st [of thr1] by (auto split: if_splits)
    with faceLevel_mono [OF assms, of people sel d]
    have "faceLevel (faceResultOf people sel thr2 d) = Flagged
        \<or> faceLevel (faceResultOf people sel thr2 d) = Possible"
      by (simp add: severity_Possible)
    with d have "status (scanImage people sel thr2 dets) \<noteq> Clear"
      unfolding st [of thr2] by auto
    with Possible show ?thesis
      by (cases "status (scanImage people sel thr2 dets)") simp_all
  next
    case Clear
    then show ?thesis by simp
  qed
qed

lemma selectedPeople_active: "selectedPeople people sel = activeIdentities people sel"
  unfolding selectedPeople_def activeIdentities_def
  by (rule filter_cong) (auto split: option.splits)

lemma trueDistances_Nil: "trueDistances q [] = []"
  by (simp add: trueDistances_def)

lemma trueDistances_Cons:
  "trueDistances q (p # pool) =
     (case trueDistanceToIdentity q p of
        Num r \<Rightarrow> (p, r) # trueDistances q pool
      | _ \<Rightarrow> trueDistances q pool)"
  by (simp add: trueDistances_def split: jsnum.splits)

lemma trueDistances_mem:
  "(p, r) \<in> set (trueDistances q pool) \<longleftrightarrow> p \<in> set pool \<and> trueDistanceToIdentity q p = Num r"
  by (auto simp add: trueDistances_def split: jsnum.splits)

lemma empty_samples_true_PInf: "samplesOrEmpty p = [] \<Longrightarrow> trueDistanceToIdentity q p = PInf"
  by (simp add: trueDistanceToIdentity_def sampleDistances_Nil)

text \<open>The reported distance of one identity against its true distance.\<close>

lemma reported_eq_true:
  "\<forall>r\<in>set (sampleDistances q (samplesOrEmpty p)). 1 / 5 \<le> r \<Longrightarrow>
   bestDistanceToIdentity q p = trueDistanceToIdentity q p"
  by (simp add: bestDistanceToIdentity_def trueDistanceToIdentity_def scanSamples_PInf_none_below)

lemma reported_vs_true:
  "(bestDistanceToIdentity q p = PInf \<longleftrightarrow> trueDistanceToIdentity q p = PInf)
   \<and> (\<forall>r. bestDistanceToIdentity q p = Num r \<longrightarrow>
        (\<exists>r'. trueDistanceToIdentity q p = Num r' \<and> r' \<le> r \<and> (1 / 5 \<le> r' \<longrightarrow> r = r')
           \<and> (r' < 1 / 5 \<longrightarrow> r < 1 / 5)))"
proof (cases "find (\<lambda>r. r < 1 / 5) (sampleDistances q (samplesOrEmpty p))")
  case None
  then have "\<forall>r\<in>set (sampleDistances q (samplesOrEmpty p)). 1 / 5 \<le> r"
    by (auto simp add: find_None_iff not_less)
  then have "bestDistanceToIdentity q p = trueDistanceToIdentity q p" by (rule reported_eq_true)
  then show ?thesis by auto
next
  case (Some r0)
  let ?ds = "sampleDistances q (samplesOrEmpty p)"
  from Some have b: "bestDistanceToIdentity q p = Num r0"
    by (simp add: bestDistanceToIdentity_def scanSamples_first_below)
  from Some have r0: "r0 \<in> set ?ds" "r0 < 1 / 5"
    by (auto simp add: find_Some_iff)
  then have ne: "?ds \<noteq> []" by auto
  then have t: "trueDistanceToIdentity q p = Num (Min (set ?ds))"
    by (simp add: trueDistanceToIdentity_def)
  have "Min (set ?ds) \<le> r0" using r0 by simp
  moreover from this r0 have "Min (set ?ds) < 1 / 5" by linarith
  moreover from this have "\<not> 1 / 5 \<le> Min (set ?ds)" by linarith
  ultimately show ?thesis unfolding b t using r0(2) by simp
qed

lemma reportedDistances_eq_true:
  "\<forall>p\<in>set pool. \<forall>r\<in>set (sampleDistances q (samplesOrEmpty p)). 1 / 5 \<le> r \<Longrightarrow>
   reportedDistances q pool = trueDistances q pool"
proof (induction pool)
  case Nil
  then show ?case by (simp add: reportedDistances_Nil trueDistances_Nil)
next
  case (Cons p pool)
  then have "bestDistanceToIdentity q p = trueDistanceToIdentity q p"
    by (intro reported_eq_true) simp
  moreover have "reportedDistances q pool = trueDistances q pool"
    by (rule Cons.IH) (use Cons.prems in simp)
  ultimately show ?case by (simp only: reportedDistances_Cons trueDistances_Cons)
qed

lemma within_reported_iff_true:
  assumes "1 / 5 \<le> t"
  shows "(\<exists>c\<in>set (reportedDistances q pool). snd c \<le> t)
     \<longleftrightarrow> (\<exists>c\<in>set (trueDistances q pool). snd c \<le> t)"
proof
  assume "\<exists>c\<in>set (reportedDistances q pool). snd c \<le> t"
  then obtain p r where pr: "p \<in> set pool" "bestDistanceToIdentity q p = Num r" "r \<le> t"
    by (auto simp add: reportedDistances_mem)
  with reported_vs_true [of q p] obtain r' where "trueDistanceToIdentity q p = Num r'" "r' \<le> r"
    by auto
  with pr have "(p, r') \<in> set (trueDistances q pool)" "snd (p, r') \<le> t"
    by (simp_all add: trueDistances_mem)
  then show "\<exists>c\<in>set (trueDistances q pool). snd c \<le> t" by blast
next
  assume "\<exists>c\<in>set (trueDistances q pool). snd c \<le> t"
  then obtain p r' where pr: "p \<in> set pool" "trueDistanceToIdentity q p = Num r'" "r' \<le> t"
    by (auto simp add: trueDistances_mem)
  then have "bestDistanceToIdentity q p \<noteq> PInf" using reported_vs_true [of q p] by auto
  moreover have "bestDistanceToIdentity q p \<noteq> NaN \<and> bestDistanceToIdentity q p \<noteq> NInf"
  proof (cases "find (\<lambda>r. r < 1 / 5) (sampleDistances q (samplesOrEmpty p))")
    case None
    then have "\<forall>r\<in>set (sampleDistances q (samplesOrEmpty p)). 1 / 5 \<le> r"
      by (auto simp add: find_None_iff not_less)
    then show ?thesis
      by (simp add: bestDistanceToIdentity_def scanSamples_PInf_none_below)
  next
    case (Some r0)
    then show ?thesis by (simp add: bestDistanceToIdentity_def scanSamples_first_below)
  qed
  ultimately obtain r where r: "bestDistanceToIdentity q p = Num r"
    by (cases "bestDistanceToIdentity q p") auto
  with reported_vs_true [of q p] pr have "1 / 5 \<le> r' \<longrightarrow> r = r'" "r' < 1 / 5 \<longrightarrow> r < 1 / 5"
    by auto
  with pr(3) assms have "r \<le> t" by (cases "1 / 5 \<le> r'") auto
  with pr r have "(p, r) \<in> set (reportedDistances q pool)" "snd (p, r) \<le> t"
    by (simp_all add: reportedDistances_mem)
  then show "\<exists>c\<in>set (reportedDistances q pool). snd c \<le> t" by blast
qed

text \<open>The level that \<open>classify\<close> gives, in terms of the distances within reach.\<close>

lemma closest_within_iff:
  "(case closest cs of None \<Rightarrow> False | Some c \<Rightarrow> snd c \<le> t) \<longleftrightarrow> (\<exists>c\<in>set cs. snd c \<le> t)"
proof (cases "closest cs")
  case None
  then show ?thesis by (simp add: closest_None_iff)
next
  case (Some c)
  from closest_mem [OF Some] closest_least [OF Some] Some show ?thesis
    by (auto intro: order_trans)
qed

lemma closest_within_limit:
  "(case closest cs of None \<Rightarrow> False | Some c \<Rightarrow> js_le (Num (snd c)) l)
     \<longleftrightarrow> (\<exists>c\<in>set cs. js_le (Num (snd c)) l)"
proof (cases "closest cs")
  case None
  then show ?thesis by (simp add: closest_None_iff)
next
  case (Some c)
  from closest_mem [OF Some] closest_least [OF Some] Some show ?thesis
    by (auto intro: js_le_trans)
qed

lemma classify_level:
  "(case classify (closest cs) thr band of None \<Rightarrow> Clear | Some m \<Rightarrow> level m) =
     (if \<exists>c\<in>set cs. snd c \<le> thr then Flagged
      else if \<exists>c\<in>set cs. snd c \<le> thr + band then Possible else Clear)"
  using closest_within_iff [where cs = cs and t = thr]
    closest_within_iff [where cs = cs and t = "thr + band"]
  by (auto simp add: classify_def mkMatch_def split: option.splits)

lemma classifyUpTo_level:
  "(case classifyUpTo (closest cs) thr l of None \<Rightarrow> Clear | Some m \<Rightarrow> level m) =
     (if \<exists>c\<in>set cs. snd c \<le> thr then Flagged
      else if \<exists>c\<in>set cs. js_le (Num (snd c)) l then Possible else Clear)"
  using closest_within_iff [where cs = cs and t = thr]
    closest_within_limit [where cs = cs and l = l]
  by (auto simp add: classifyUpTo_def mkMatch_def split: option.splits)

lemma classifyUpTo_eq_classify:
  assumes "\<forall>c\<in>set cs. js_le (Num (snd c)) l \<longleftrightarrow> snd c \<le> thr + band"
  shows "classifyUpTo (closest cs) thr l = classify (closest cs) thr band"
proof (cases "closest cs")
  case None
  then show ?thesis by (simp add: classifyUpTo_def classify_def)
next
  case (Some c)
  from closest_mem [OF Some] assms have "js_le (Num (snd c)) l \<longleftrightarrow> snd c \<le> thr + band"
    by blast
  with Some show ?thesis by (cases c) (simp add: classifyUpTo_def classify_def)
qed

text \<open>
  When no reported distance is within a bound of at least 0.20, no scan has left early and
  the reported distances are the true ones.
\<close>

lemma reported_Num_iff:
  "(\<exists>r. bestDistanceToIdentity q p = Num r) \<longleftrightarrow> (\<exists>r'. trueDistanceToIdentity q p = Num r')"
proof
  assume "\<exists>r. bestDistanceToIdentity q p = Num r"
  with reported_vs_true [of q p] show "\<exists>r'. trueDistanceToIdentity q p = Num r'" by blast
next
  assume "\<exists>r'. trueDistanceToIdentity q p = Num r'"
  then have "bestDistanceToIdentity q p \<noteq> PInf" using reported_vs_true [of q p] by auto
  moreover have "bestDistanceToIdentity q p \<noteq> NaN \<and> bestDistanceToIdentity q p \<noteq> NInf"
  proof (cases "find (\<lambda>r. r < 1 / 5) (sampleDistances q (samplesOrEmpty p))")
    case None
    then have "\<forall>r\<in>set (sampleDistances q (samplesOrEmpty p)). 1 / 5 \<le> r"
      by (auto simp add: find_None_iff not_less)
    then show ?thesis
      by (simp add: bestDistanceToIdentity_def scanSamples_PInf_none_below)
  next
    case (Some r0)
    then show ?thesis by (simp add: bestDistanceToIdentity_def scanSamples_first_below)
  qed
  ultimately show "\<exists>r. bestDistanceToIdentity q p = Num r"
    by (cases "bestDistanceToIdentity q p") auto
qed

lemma reported_set_eq_true:
  assumes "1 / 5 \<le> t" and "\<not> (\<exists>c\<in>set (reportedDistances q pool). snd c \<le> t)"
  shows "set (reportedDistances q pool) = set (trueDistances q pool)"
proof -
  have e: "r = r'"
    if "p \<in> set pool" "bestDistanceToIdentity q p = Num r" "trueDistanceToIdentity q p = Num r'"
    for p r r'
  proof -
    from that have "(p, r) \<in> set (reportedDistances q pool)" by (simp add: reportedDistances_mem)
    with assms(2) have "\<not> r \<le> t" by auto
    with assms(1) have "\<not> r < 1 / 5" by linarith
    with reported_vs_true [of q p] that show ?thesis by (cases "1 / 5 \<le> r'") auto
  qed
  show ?thesis
  proof (intro set_eqI iffI)
    fix c
    assume m: "c \<in> set (reportedDistances q pool)"
    obtain p r where pr: "c = (p, r)" by (cases c)
    with m have c: "c = (p, r)" "p \<in> set pool" "bestDistanceToIdentity q p = Num r"
      by (simp_all add: reportedDistances_mem)
    with reported_Num_iff [of q p] obtain r' where r': "trueDistanceToIdentity q p = Num r'"
      by blast
    with c e have "r = r'" by blast
    with c r' show "c \<in> set (trueDistances q pool)" by (simp add: trueDistances_mem)
  next
    fix c
    assume m: "c \<in> set (trueDistances q pool)"
    obtain p r' where pr: "c = (p, r')" by (cases c)
    with m have c: "c = (p, r')" "p \<in> set pool" "trueDistanceToIdentity q p = Num r'"
      by (simp_all add: trueDistances_mem)
    with reported_Num_iff [of q p] obtain r where r: "bestDistanceToIdentity q p = Num r"
      by blast
    with c e have "r = r'" by blast
    with c r show "c \<in> set (reportedDistances q pool)" by (simp add: reportedDistances_mem)
  qed
qed

lemma faceLevel_eq_spec:
  assumes "1 / 5 \<le> thr"
    and "\<forall>c\<in>set (trueDistances (descriptor d) (activeIdentities people sel)).
           js_le (Num (snd c)) (possibleLimit thr) \<longleftrightarrow> snd c \<le> thr + BORDERLINE_BAND"
  shows "faceLevel (faceResultOf people sel thr d) =
     (case spec_match (descriptor d) (activeIdentities people sel) thr BORDERLINE_BAND of
        None \<Rightarrow> Clear | Some m \<Rightarrow> level m)"
proof -
  let ?rs = "reportedDistances (descriptor d) (activeIdentities people sel)"
  let ?ts = "trueDistances (descriptor d) (activeIdentities people sel)"
  have l: "faceLevel (faceResultOf people sel thr d) =
     (if \<exists>c\<in>set ?rs. snd c \<le> thr then Flagged
      else if \<exists>c\<in>set ?rs. js_le (Num (snd c)) (possibleLimit thr) then Possible else Clear)"
    unfolding faceLevel_def best_eq_reported_match reported_match_def selectedPeople_active
    by (rule classifyUpTo_level)
  have s: "(case spec_match (descriptor d) (activeIdentities people sel) thr BORDERLINE_BAND of
        None \<Rightarrow> Clear | Some m \<Rightarrow> level m) =
     (if \<exists>c\<in>set ?ts. snd c \<le> thr then Flagged
      else if \<exists>c\<in>set ?ts. snd c \<le> thr + BORDERLINE_BAND then Possible else Clear)"
    unfolding spec_match_def by (rule classify_level)
  show ?thesis
  proof (cases "\<exists>c\<in>set ?rs. snd c \<le> thr")
    case True
    moreover from True have "\<exists>c\<in>set ?ts. snd c \<le> thr"
      by (simp only: within_reported_iff_true [OF assms(1)])
    ultimately show ?thesis unfolding l s by simp
  next
    case False
    then have e: "set ?rs = set ?ts" by (rule reported_set_eq_true [OF assms(1)])
    from False have "\<not> (\<exists>c\<in>set ?ts. snd c \<le> thr)" unfolding e .
    with False assms(2) show ?thesis unfolding l s e by auto
  qed
qed

text \<open>The limit of the POSSIBLE tier against the exact sum.\<close>

lemma possibleLimit_near:
  assumes "0 \<le> thr" and "thr \<le> 2 ^ 1000"
  shows "\<exists>l. possibleLimit thr = Num l
     \<and> \<bar>l - (thr + BORDERLINE_BAND)\<bar> \<le> (thr + BORDERLINE_BAND) / 2 ^ 52"
proof -
  define b :: real where "b = 3602879701896397 / 36028797018963968"
  have bb: "1 / 10 \<le> b" "b \<le> 1 / 10 + 1 / 2 ^ 57" "b \<le> 1" by (simp_all add: b_def)
  have fb: "fl BORDERLINE_BAND = Num b"
    by (simp add: BORDERLINE_BAND_def fl_tenth b_def)
  define l where "l = rnd (thr + b)"
  have f: "fl (thr + b) = Num l"
    unfolding l_def using assms bb by (intro fl_Num_le) simp_all
  have e: "\<bar>l - (thr + b)\<bar> \<le> (thr + b) / 2 ^ 53 + 1 / 2 ^ 100"
    using rnd_error_small [of "thr + b"] assms bb unfolding l_def
    by (simp add: abs_if split: if_splits)
  define u :: real where "u = 1 / 2 ^ 53"
  define M where "M = thr + 1 / 10"
  define MU where "MU = M * u"
  define eta :: real where "eta = 1 / 2 ^ 100"
  define del :: real where "del = 1 / 2 ^ 57"
  have u: "0 < u" "u \<le> 1 / 8" by (simp_all add: u_def)
  have Mu: "1 / 10 * u \<le> MU" unfolding MU_def
    using assms u by (intro mult_right_mono) (simp_all add: M_def)
  define A where "A = (thr + b) * u"
  define DU where "DU = del * u"
  have "(thr + b) / 2 ^ 53 + 1 / 2 ^ 100 = A + eta" by (simp add: A_def u_def eta_def)
  with e have E: "\<bar>l - (thr + b)\<bar> \<le> A + eta" by simp
  have A: "A \<le> MU + DU"
  proof -
    have "(thr + b) * u \<le> (M + del) * u"
      using bb u by (intro mult_right_mono) (simp_all add: M_def del_def)
    then show ?thesis by (simp add: A_def DU_def MU_def algebra_simps)
  qed
  have B: "\<bar>b - 1 / 10\<bar> \<le> del" using bb by (simp add: del_def)
  have c1: "DU \<le> 1 / 100 * (1 / 10 * u)" by (simp add: DU_def u_def del_def)
  have c2: "eta \<le> 1 / 100 * (1 / 10 * u)" by (simp add: u_def eta_def)
  have c3: "del \<le> 7 / 10 * (1 / 10 * u)" by (simp add: u_def del_def)
  have "\<bar>l - M\<bar> \<le> \<bar>l - (thr + b)\<bar> + \<bar>b - 1 / 10\<bar>" unfolding M_def by linarith
  also have "\<dots> \<le> (A + eta) + del" using E B by linarith
  also have "\<dots> \<le> 2 * MU" using A Mu c1 c2 c3 u by argo
  finally have "\<bar>l - M\<bar> \<le> M / 2 ^ 52" by (simp add: MU_def u_def)
  moreover have "possibleLimit thr = Num l" by (simp add: possibleLimit_def fb f)
  ultimately show ?thesis unfolding M_def BORDERLINE_BAND_def by blast
qed

text \<open>The limit at the thresholds of the examples below.\<close>

lemma possibleLimit_eval:
  "possibleLimit (11 / 20) = Num (5854679515581645 / 9007199254740992)"
  "possibleLimit (1 / 20) = Num (5404319552844595 / 36028797018963968)"
  "possibleLimit (3 / 5) = Num (3152519739159347 / 4503599627370496)"
  "possibleLimit (13 / 20) = Num (3 / 4)"
  "possibleLimit (3602879701896397 / 18014398509481984) = Num (1351079888211149 / 4503599627370496)"
proof -
  have "fl (117093590311632897 / 180143985094819840) = Num (5854679515581645 / 9007199254740992)"
    by (subst fl_eval_neg [where n = 1]) (simp_all add: rhe_def)
  then show "possibleLimit (11 / 20) = Num (5854679515581645 / 9007199254740992)"
    by (simp add: possibleLimit_def BORDERLINE_BAND_def fl_tenth)
  have "fl (27021597764222977 / 180143985094819840) = Num (5404319552844595 / 36028797018963968)"
    by (subst fl_eval_neg [where n = 3]) (simp_all add: rhe_def)
  then show "possibleLimit (1 / 20) = Num (5404319552844595 / 36028797018963968)"
    by (simp add: possibleLimit_def BORDERLINE_BAND_def fl_tenth)
  have "fl (126100789566373889 / 180143985094819840) = Num (3152519739159347 / 4503599627370496)"
    by (subst fl_eval_neg [where n = 1]) (simp_all add: rhe_def)
  then show "possibleLimit (3 / 5) = Num (3152519739159347 / 4503599627370496)"
    by (simp add: possibleLimit_def BORDERLINE_BAND_def fl_tenth)
  have "fl (135107988821114881 / 180143985094819840) = Num (3 / 4)"
    by (subst fl_eval_neg [where n = 1]) (simp_all add: rhe_def)
  then show "possibleLimit (13 / 20) = Num (3 / 4)"
    by (simp add: possibleLimit_def BORDERLINE_BAND_def fl_tenth)
  have "fl (10808639105689191 / 36028797018963968) = Num (1351079888211149 / 4503599627370496)"
    by (subst fl_eval_neg [where n = 2]) (simp_all add: rhe_def)
  then show "possibleLimit (3602879701896397 / 18014398509481984) =
      Num (1351079888211149 / 4503599627370496)"
    by (simp add: possibleLimit_def BORDERLINE_BAND_def fl_tenth)
qed

section \<open>The claims about the matcher and the verdict\<close>

text \<open>The definitions to unfold when the program is run on a concrete input.\<close>

lemmas eval_defs = scanImage_def imageVerdict_def faceResultOf_def matchesForDescriptor_def
  dedupeByPerson_def MAX_FACES_PER_IMAGE_def samplesOrEmpty_def selectedPeople_def
  dist_vec_single mkMatch_def conf_eval_1 conf_eval_2 conf_eval_3 possibleLimit_eval Let_def
  faceLevel_def

text \<open>
  In binary64 arithmetic 0.2 + 0.1 is 0.30000000000000004: with the threshold 0.2 (its
  binary64 value) a face at that distance of the only sample is POSSIBLE, though the
  distance is above the exact sum of the threshold and the band.
\<close>

lemma possibleLimit_example:
  "best (faceResultOf
      [\<lparr>ident = ''a'', pname = ''A'', samples = Some [[0]]\<rparr>] []
      (3602879701896397 / 18014398509481984)
      \<lparr>descriptor = [1351079888211149 / 4503599627370496], width = 100, height = 100,
        score = Some 1\<rparr>) =
     Some (mkMatch \<lparr>ident = ''a'', pname = ''A'', samples = Some [[0]]\<rparr>
            (1351079888211149 / 4503599627370496) (3602879701896397 / 18014398509481984) Possible)
   \<and> spec_match [1351079888211149 / 4503599627370496]
        (activeIdentities [\<lparr>ident = ''a'', pname = ''A'', samples = Some [[0]]\<rparr>] [])
        (3602879701896397 / 18014398509481984) BORDERLINE_BAND = None"
proof -
  have s: "sampleDistances [1351079888211149 / 4503599627370496] [[0]] =
      [1351079888211149 / 4503599627370496]"
    by (simp add: sampleDistances_def dist_vec_single)
  show ?thesis
    by (simp add: faceResultOf_def matchesForDescriptor_def selectedPeople_def spec_match_def
        classify_def trueDistances_def trueDistanceToIdentity_def s activeIdentities_def
        samplesOrEmpty_def dist_vec_single possibleLimit_eval BORDERLINE_BAND_def Let_def)
qed

text \<open>
  Claim C1, as amended. The best match of a face is the classification of the identity
  of minimum reported distance, among the active identities whose reported distance is a
  number, where the reported distance is that of the scan with its early exit (see Claim
  C2): FLAGGED when that distance is at most the threshold, POSSIBLE when it is above the
  threshold and at most \<open>possibleLimit\<close>, the sum of the threshold and
  \<open>BORDERLINE_BAND\<close> as the program computes it, and otherwise the face has no match.
  That sum is within one part in \<open>2^52\<close> of the exact sum. When no sample of an active
  identity lies below the cutoff 0.20, and the computed and the exact sum admit the same
  distances, the best match is the match of the specification on the true minimum
  distances. When the threshold is at least 0.20, and the two sums admit the same
  distances, the tier of the face is the one of the specification, though the identity
  named and its distance can be those of a sample below the cutoff that is not the closest
  one. The variant that keeps the closest person only names the identity of minimum
  reported distance when that distance is at most the threshold, and has no band.
\<close>

theorem matcher_classifies_closest:
  "best (faceResultOf people scanSelection thr d) =
     reported_match (descriptor d) (activeIdentities people scanSelection) thr (possibleLimit thr)
   \<and> ((\<forall>p\<in>set (activeIdentities people scanSelection).
         \<forall>r\<in>set (sampleDistances (descriptor d) (samplesOrEmpty p)). 1 / 5 \<le> r)
       \<and> (\<forall>c\<in>set (trueDistances (descriptor d) (activeIdentities people scanSelection)).
            js_le (Num (snd c)) (possibleLimit thr) \<longleftrightarrow> snd c \<le> thr + BORDERLINE_BAND) \<longrightarrow>
       best (faceResultOf people scanSelection thr d) =
         spec_match (descriptor d) (activeIdentities people scanSelection) thr BORDERLINE_BAND)
   \<and> (1 / 5 \<le> thr
       \<and> (\<forall>c\<in>set (trueDistances (descriptor d) (activeIdentities people scanSelection)).
            js_le (Num (snd c)) (possibleLimit thr) \<longleftrightarrow> snd c \<le> thr + BORDERLINE_BAND) \<longrightarrow>
       faceLevel (faceResultOf people scanSelection thr d) =
         (case spec_match (descriptor d) (activeIdentities people scanSelection) thr
                 BORDERLINE_BAND of
            None \<Rightarrow> Clear | Some m \<Rightarrow> level m))
   \<and> (0 \<le> thr \<and> thr \<le> 2 ^ 1000 \<longrightarrow>
       (\<exists>l. possibleLimit thr = Num l
          \<and> \<bar>l - (thr + BORDERLINE_BAND)\<bar> \<le> (thr + BORDERLINE_BAND) / 2 ^ 52))
   \<and> bestMatchForDescriptor people scanSelection q thr =
     (case closest (reportedDistances q (activeIdentities people scanSelection)) of
        None \<Rightarrow> None
      | Some (p, r) \<Rightarrow> if r \<le> thr then Some (mkCandidate p r thr) else None)
   \<and> ((\<forall>p\<in>set (activeIdentities people scanSelection).
         \<forall>r\<in>set (sampleDistances q (samplesOrEmpty p)). 1 / 5 \<le> r) \<longrightarrow>
       bestMatchForDescriptor people scanSelection q thr =
         (case closest (trueDistances q (activeIdentities people scanSelection)) of
            None \<Rightarrow> None
          | Some (p, r) \<Rightarrow> if r \<le> thr then Some (mkCandidate p r thr) else None))
   \<and> (closest cs = Some c \<longrightarrow> c \<in> set cs \<and> (\<forall>c'\<in>set cs. snd c \<le> snd c'))
   \<and> ((p', r') \<in> set (trueDistances q pool) \<longleftrightarrow>
        p' \<in> set pool \<and> trueDistanceToIdentity q p' = Num r')
   \<and> (samplesOrEmpty p' = [] \<longrightarrow> trueDistanceToIdentity q p' = PInf)"
proof -
  let ?act = "activeIdentities people scanSelection"
  have a: "best (faceResultOf people scanSelection thr d) =
     reported_match (descriptor d) ?act thr (possibleLimit thr)"
    by (simp add: best_eq_reported_match selectedPeople_active)
  have b: "best (faceResultOf people scanSelection thr d) =
         spec_match (descriptor d) ?act thr BORDERLINE_BAND"
    if "\<forall>p\<in>set ?act. \<forall>r\<in>set (sampleDistances (descriptor d) (samplesOrEmpty p)). 1 / 5 \<le> r"
      and "\<forall>c\<in>set (trueDistances (descriptor d) ?act).
            js_le (Num (snd c)) (possibleLimit thr) \<longleftrightarrow> snd c \<le> thr + BORDERLINE_BAND"
  proof -
    from that(1) have "reportedDistances (descriptor d) ?act = trueDistances (descriptor d) ?act"
      by (rule reportedDistances_eq_true)
    then have "best (faceResultOf people scanSelection thr d) =
        classifyUpTo (closest (trueDistances (descriptor d) ?act)) thr (possibleLimit thr)"
      by (simp add: a reported_match_def)
    also have "\<dots> = classify (closest (trueDistances (descriptor d) ?act)) thr BORDERLINE_BAND"
      using that(2) by (rule classifyUpTo_eq_classify)
    finally show ?thesis by (simp add: spec_match_def)
  qed
  have c: "faceLevel (faceResultOf people scanSelection thr d) =
         (case spec_match (descriptor d) ?act thr BORDERLINE_BAND of
            None \<Rightarrow> Clear | Some m \<Rightarrow> level m)"
    if "1 / 5 \<le> thr"
      and "\<forall>c\<in>set (trueDistances (descriptor d) ?act).
            js_le (Num (snd c)) (possibleLimit thr) \<longleftrightarrow> snd c \<le> thr + BORDERLINE_BAND"
    using that by (rule faceLevel_eq_spec)
  have n: "0 \<le> thr \<and> thr \<le> 2 ^ 1000 \<longrightarrow>
       (\<exists>l. possibleLimit thr = Num l
          \<and> \<bar>l - (thr + BORDERLINE_BAND)\<bar> \<le> (thr + BORDERLINE_BAND) / 2 ^ 52)"
    using possibleLimit_near [of thr] by blast
  have e: "bestMatchForDescriptor people scanSelection q thr =
     (case closest (reportedDistances q ?act) of
        None \<Rightarrow> None
      | Some (p, r) \<Rightarrow> if r \<le> thr then Some (mkCandidate p r thr) else None)"
    by (simp add: bestMatchForDescriptor_eq selectedPeople_active)
  have f: "(\<forall>p\<in>set ?act. \<forall>r\<in>set (sampleDistances q (samplesOrEmpty p)). 1 / 5 \<le> r) \<longrightarrow>
       bestMatchForDescriptor people scanSelection q thr =
         (case closest (trueDistances q ?act) of
            None \<Rightarrow> None
          | Some (p, r) \<Rightarrow> if r \<le> thr then Some (mkCandidate p r thr) else None)"
    by (simp add: e reportedDistances_eq_true)
  have g: "closest cs = Some c \<longrightarrow> c \<in> set cs \<and> (\<forall>c'\<in>set cs. snd c \<le> snd c')"
    using closest_mem [of cs c] closest_least [of cs c] by blast
  have h: "(p', r') \<in> set (trueDistances q pool) \<longleftrightarrow>
        p' \<in> set pool \<and> trueDistanceToIdentity q p' = Num r'"
    by (rule trueDistances_mem)
  have i: "samplesOrEmpty p' = [] \<longrightarrow> trueDistanceToIdentity q p' = PInf"
    by (simp add: empty_samples_true_PInf)
  from b c have bc: "((\<forall>p\<in>set ?act.
         \<forall>r\<in>set (sampleDistances (descriptor d) (samplesOrEmpty p)). 1 / 5 \<le> r)
       \<and> (\<forall>c\<in>set (trueDistances (descriptor d) ?act).
            js_le (Num (snd c)) (possibleLimit thr) \<longleftrightarrow> snd c \<le> thr + BORDERLINE_BAND) \<longrightarrow>
       best (faceResultOf people scanSelection thr d) =
         spec_match (descriptor d) ?act thr BORDERLINE_BAND)
   \<and> (1 / 5 \<le> thr
       \<and> (\<forall>c\<in>set (trueDistances (descriptor d) ?act).
            js_le (Num (snd c)) (possibleLimit thr) \<longleftrightarrow> snd c \<le> thr + BORDERLINE_BAND) \<longrightarrow>
       faceLevel (faceResultOf people scanSelection thr d) =
         (case spec_match (descriptor d) ?act thr BORDERLINE_BAND of
            None \<Rightarrow> Clear | Some m \<Rightarrow> level m))"
    by blast
  from a bc n e f g h i show ?thesis by (intro conjI) blast+
qed

text \<open>
  One identity, Alice, with one sample, and a deselected identity at distance 0 of every
  query; threshold 0.55. At distance 0.50 the face is FLAGGED, at 0.60 POSSIBLE, at 0.80
  it has no match, and these are the matches of the specification; the variant names
  Alice at 0.50.
\<close>

theorem matcher_classifies_closest_witness:
  "best (faceResultOf
          [\<lparr>ident = ''z'', pname = ''Zoe'', samples = Some [[1 / 2], [6 / 10], [8 / 10]]\<rparr>,
           \<lparr>ident = ''a'', pname = ''Alice'', samples = Some [[0]]\<rparr>]
          [(''z'', False)] (55 / 100)
          \<lparr>descriptor = [1 / 2], width = 100, height = 100, score = Some 1\<rparr>) =
     Some \<lparr>personId = ''a'', name = ''Alice'', distance = 1 / 2, confidence = Num 44,
           level = Flagged\<rparr>
   \<and> best (faceResultOf
          [\<lparr>ident = ''z'', pname = ''Zoe'', samples = Some [[1 / 2], [6 / 10], [8 / 10]]\<rparr>,
           \<lparr>ident = ''a'', pname = ''Alice'', samples = Some [[0]]\<rparr>]
          [(''z'', False)] (55 / 100)
          \<lparr>descriptor = [6 / 10], width = 100, height = 100, score = Some 1\<rparr>) =
     Some \<lparr>personId = ''a'', name = ''Alice'', distance = 6 / 10, confidence = Num 33,
           level = Possible\<rparr>
   \<and> best (faceResultOf
          [\<lparr>ident = ''z'', pname = ''Zoe'', samples = Some [[1 / 2], [6 / 10], [8 / 10]]\<rparr>,
           \<lparr>ident = ''a'', pname = ''Alice'', samples = Some [[0]]\<rparr>]
          [(''z'', False)] (55 / 100)
          \<lparr>descriptor = [8 / 10], width = 100, height = 100, score = Some 1\<rparr>) = None
   \<and> spec_match [6 / 10]
        (activeIdentities
          [\<lparr>ident = ''z'', pname = ''Zoe'', samples = Some [[1 / 2], [6 / 10], [8 / 10]]\<rparr>,
           \<lparr>ident = ''a'', pname = ''Alice'', samples = Some [[0]]\<rparr>]
          [(''z'', False)]) (55 / 100) BORDERLINE_BAND =
     Some \<lparr>personId = ''a'', name = ''Alice'', distance = 6 / 10, confidence = Num 33,
           level = Possible\<rparr>
   \<and> bestMatchForDescriptor
          [\<lparr>ident = ''z'', pname = ''Zoe'', samples = Some [[1 / 2], [6 / 10], [8 / 10]]\<rparr>,
           \<lparr>ident = ''a'', pname = ''Alice'', samples = Some [[0]]\<rparr>]
          [(''z'', False)] [1 / 2] (55 / 100) =
     Some \<lparr>personId = ''a'', name = ''Alice'', distance = 1 / 2, confidence = Num 38\<rparr>"
proof -
  let ?people = "[\<lparr>ident = ''z'', pname = ''Zoe'', samples = Some [[1 / 2], [6 / 10], [8 / 10]]\<rparr>,
           \<lparr>ident = ''a'', pname = ''Alice'', samples = Some [[0]]\<rparr>]"
  have s: "sampleDistances [x] [[0]] = [\<bar>x\<bar>]" for x :: real
    by (simp add: sampleDistances_def dist_vec_single)
  have t: "trueDistances [x] [\<lparr>ident = ''a'', pname = ''Alice'', samples = Some [[0]]\<rparr>] =
      [(\<lparr>ident = ''a'', pname = ''Alice'', samples = Some [[0]]\<rparr>, \<bar>x\<bar>)]" for x :: real
    by (simp add: trueDistances_def trueDistanceToIdentity_def samplesOrEmpty_def s)
  show ?thesis
    using matcher_classifies_closest
        [of ?people "[(''z'', False)]" "55 / 100"
          "\<lparr>descriptor = [1 / 2], width = 100, height = 100, score = Some 1\<rparr>" "[1 / 2]"]
      matcher_classifies_closest
        [of ?people "[(''z'', False)]" "55 / 100"
          "\<lparr>descriptor = [6 / 10], width = 100, height = 100, score = Some 1\<rparr>" "[1 / 2]"]
      matcher_classifies_closest
        [of ?people "[(''z'', False)]" "55 / 100"
          "\<lparr>descriptor = [8 / 10], width = 100, height = 100, score = Some 1\<rparr>" "[1 / 2]"]
    by (simp add: reported_match_def classifyUpTo_def reportedDistances_def
          bestDistanceToIdentity_def samplesOrEmpty_def activeIdentities_def dist_vec_single
          mkMatch_def mkCandidate_def conf_eval_1 conf_eval_2 conf_eval_4 possibleLimit_eval
          spec_match_def classify_def s t BORDERLINE_BAND_def Let_def)
qed

text \<open>
  The claim names the identity of minimum distance. With the samples \<open>[0.19]\<close> and
  \<open>[0.01]\<close> of identity A, the query \<open>[0]\<close> and the threshold 0.05 the face has no
  match, while A is at distance 0.01 and the specification classifies it FLAGGED. With a
  second identity B, of sample \<open>[0.1]\<close>, and the threshold 0.6 the program names B at
  0.1, and the specification A at 0.01.
\<close>

theorem matcher_counterexample:
  "best (faceResultOf [\<lparr>ident = ''a'', pname = ''A'', samples = Some [[19 / 100], [1 / 100]]\<rparr>] []
          (5 / 100) \<lparr>descriptor = [0], width = 100, height = 100, score = Some 1\<rparr>) = None
   \<and> map_option (\<lambda>m. (personId m, distance m, level m))
        (spec_match [0]
          (activeIdentities
            [\<lparr>ident = ''a'', pname = ''A'', samples = Some [[19 / 100], [1 / 100]]\<rparr>] [])
          (5 / 100) BORDERLINE_BAND) = Some (''a'', 1 / 100, Flagged)
   \<and> map_option (\<lambda>m. (personId m, distance m, level m))
        (best (faceResultOf
          [\<lparr>ident = ''a'', pname = ''A'', samples = Some [[19 / 100], [1 / 100]]\<rparr>,
           \<lparr>ident = ''b'', pname = ''B'', samples = Some [[1 / 10]]\<rparr>] []
          (6 / 10) \<lparr>descriptor = [0], width = 100, height = 100, score = Some 1\<rparr>)) =
       Some (''b'', 1 / 10, Flagged)
   \<and> map_option (\<lambda>m. (personId m, distance m, level m))
        (spec_match [0]
          (activeIdentities
            [\<lparr>ident = ''a'', pname = ''A'', samples = Some [[19 / 100], [1 / 100]]\<rparr>,
             \<lparr>ident = ''b'', pname = ''B'', samples = Some [[1 / 10]]\<rparr>] [])
          (6 / 10) BORDERLINE_BAND) = Some (''a'', 1 / 100, Flagged)"
proof -
  have s1: "sampleDistances [0] [[19 / 100], [1 / 100]] = [19 / 100, 1 / 100]"
    by (simp add: sampleDistances_def dist_vec_single)
  have s2: "sampleDistances [0] [[1 / 10]] = [1 / 10]"
    by (simp add: sampleDistances_def dist_vec_single)
  show ?thesis
    by (simp add: faceResultOf_def matchesForDescriptor_def selectedPeople_def spec_match_def
        classify_def trueDistances_def trueDistanceToIdentity_def s1 s2
        activeIdentities_def samplesOrEmpty_def dist_vec_single mkMatch_def possibleLimit_eval
        BORDERLINE_BAND_def Let_def)
qed

text \<open>
  Claim C4. The tier of an image is FLAGGED when a face of the image is FLAGGED, else
  POSSIBLE when a face is POSSIBLE, else CLEAR; the faces are the detections the handler
  keeps, at most \<open>MAX_FACES_PER_IMAGE\<close>, and all of them are counted. An image with no
  detection is CLEAR, with no face and no matched identity.
\<close>

theorem image_tier_most_severe:
  "status (scanImage people scanSelection thr dets) =
     (if \<exists>fr\<in>set (map (faceResultOf people scanSelection thr) (take MAX_FACES_PER_IMAGE dets)).
           faceLevel fr = Flagged then Flagged
      else if \<exists>fr\<in>set (map (faceResultOf people scanSelection thr) (take MAX_FACES_PER_IMAGE dets)).
           faceLevel fr = Possible then Possible
      else Clear)
   \<and> status (imageVerdict frs) =
     (if \<exists>fr\<in>set frs. hits fr \<noteq> [] then Flagged
      else if \<exists>fr\<in>set frs. possibles fr \<noteq> [] then Possible else Clear)
   \<and> faceCount (imageVerdict frs) = length frs
   \<and> faceCount (scanImage people scanSelection thr dets) = min MAX_FACES_PER_IMAGE (length dets)
   \<and> scanImage people scanSelection thr [] = \<lparr>status = Clear, listForLabel = [], faceCount = 0\<rparr>
   \<and> imageVerdict [] = \<lparr>status = Clear, listForLabel = [], faceCount = 0\<rparr>"
proof -
  have e: "imageVerdict [] = \<lparr>status = Clear, listForLabel = [], faceCount = 0\<rparr>"
    by (simp add: imageVerdict_def dedupeByPerson_def)
  have c: "faceCount (imageVerdict frs) = length frs" for frs
    by (simp add: imageVerdict_def Let_def split: prod.splits)
  show ?thesis
    using e by (simp add: scanImage_status imageVerdict_status c) (simp add: scanImage_def c)
qed

theorem image_tier_most_severe_witness:
  "scanImage [\<lparr>ident = ''x'', pname = ''X'', samples = Some [[0]]\<rparr>] [] (55 / 100)
     [\<lparr>descriptor = [8 / 10], width = 100, height = 100, score = Some 1\<rparr>,
      \<lparr>descriptor = [1 / 2], width = 100, height = 100, score = Some 1\<rparr>] =
     \<lparr>status = Flagged,
      listForLabel = [\<lparr>personId = ''x'', name = ''X'', distance = 1 / 2, confidence = Num 44,
                       level = Flagged\<rparr>],
      faceCount = 2\<rparr>
   \<and> scanImage [\<lparr>ident = ''x'', pname = ''X'', samples = Some [[0]]\<rparr>] [] (55 / 100) [] =
     \<lparr>status = Clear, listForLabel = [], faceCount = 0\<rparr>"
  using image_tier_most_severe
    [of "[\<lparr>ident = ''x'', pname = ''X'', samples = Some [[0]]\<rparr>]" "[]" "55 / 100"
      "[\<lparr>descriptor = [8 / 10], width = 100, height = 100, score = Some 1\<rparr>,
        \<lparr>descriptor = [1 / 2], width = 100, height = 100, score = Some 1\<rparr>]" "[]"]
  by (simp add: eval_defs)

text \<open>
  Claim C5. The list of matched identities has at most one entry for a person, that
  entry is an occurrence of the person of least distance, every person of the list given
  to \<open>dedupeByPerson\<close> is kept, and the result is in ascending order of distance. The
  list of a verdict is \<open>dedupeByPerson\<close> of the hits of all faces when a face has a hit,
  and of the possibles of all faces otherwise.
\<close>

theorem matched_identities_deduplicated:
  "distinct (map personId (dedupeByPerson list))
   \<and> sorted (map distance (dedupeByPerson list))
   \<and> personId ` set (dedupeByPerson list) = personId ` set list
   \<and> (\<forall>m\<in>set (dedupeByPerson list).
        m \<in> set list \<and> (\<forall>x\<in>set list. personId x = personId m \<longrightarrow> distance m \<le> distance x))
   \<and> listForLabel (imageVerdict frs) =
       (if \<exists>fr\<in>set frs. hits fr \<noteq> [] then dedupeByPerson (concat (map hits frs))
        else dedupeByPerson (concat (map possibles frs)))
   \<and> distinct (map personId (listForLabel (imageVerdict frs)))
   \<and> sorted (map distance (listForLabel (imageVerdict frs)))
   \<and> distinct (map personId (listForLabel (scanImage people scanSelection thr dets)))
   \<and> sorted (map distance (listForLabel (scanImage people scanSelection thr dets)))"
proof -
  have v: "distinct (map personId (listForLabel (imageVerdict frs)))
      \<and> sorted (map distance (listForLabel (imageVerdict frs)))" for frs
    using listForLabel_cases [of frs]
    by (auto simp add: dedupeByPerson_distinct dedupeByPerson_sorted)
  show ?thesis
    using v [of frs] v [of "map (faceResultOf people scanSelection thr) (take MAX_FACES_PER_IMAGE dets)"]
      dedupeByPerson_set [of _ list] listForLabel_eq [of frs]
    by (simp add: dedupeByPerson_distinct dedupeByPerson_sorted dedupeByPerson_ids
          scanImage_def Let_def)
qed

theorem matched_identities_deduplicated_witness:
  "scanImage [\<lparr>ident = ''x'', pname = ''X'', samples = Some [[0]]\<rparr>] [] (6 / 10)
     [\<lparr>descriptor = [1 / 2], width = 100, height = 100, score = Some 1\<rparr>,
      \<lparr>descriptor = [3 / 10], width = 100, height = 100, score = Some 1\<rparr>] =
     \<lparr>status = Flagged,
      listForLabel = [\<lparr>personId = ''x'', name = ''X'', distance = 3 / 10, confidence = Num 68,
                       level = Flagged\<rparr>],
      faceCount = 2\<rparr>"
  using matched_identities_deduplicated
    [of "[]" "[]" "[\<lparr>ident = ''x'', pname = ''X'', samples = Some [[0]]\<rparr>]" "[]" "6 / 10"
      "[\<lparr>descriptor = [1 / 2], width = 100, height = 100, score = Some 1\<rparr>,
        \<lparr>descriptor = [3 / 10], width = 100, height = 100, score = Some 1\<rparr>]"]
  by (simp add: eval_defs)

text \<open>
  Claim C9. With the same people, selection and detections, a higher threshold never
  lowers the severity of the tier of a face or of an image: a face that is FLAGGED stays
  FLAGGED, and a face that is POSSIBLE stays POSSIBLE or becomes FLAGGED.
\<close>

theorem threshold_monotone:
  "thr1 \<le> thr2 \<Longrightarrow>
   severity (faceLevel (faceResultOf people scanSelection thr1 d))
     \<le> severity (faceLevel (faceResultOf people scanSelection thr2 d))
   \<and> (faceLevel (faceResultOf people scanSelection thr1 d) = Flagged \<longrightarrow>
        faceLevel (faceResultOf people scanSelection thr2 d) = Flagged)
   \<and> (faceLevel (faceResultOf people scanSelection thr1 d) = Possible \<longrightarrow>
        faceLevel (faceResultOf people scanSelection thr2 d) = Possible
        \<or> faceLevel (faceResultOf people scanSelection thr2 d) = Flagged)
   \<and> severity (status (scanImage people scanSelection thr1 dets))
     \<le> severity (status (scanImage people scanSelection thr2 dets))"
proof -
  assume le: "thr1 \<le> thr2"
  from faceLevel_mono [OF le, of people scanSelection d]
  have m: "severity (faceLevel (faceResultOf people scanSelection thr1 d))
     \<le> severity (faceLevel (faceResultOf people scanSelection thr2 d))" .
  have f: "faceLevel (faceResultOf people scanSelection thr1 d) = Flagged \<longrightarrow>
        faceLevel (faceResultOf people scanSelection thr2 d) = Flagged"
    using m by (auto simp add: severity_Flagged)
  have p: "faceLevel (faceResultOf people scanSelection thr1 d) = Possible \<longrightarrow>
        faceLevel (faceResultOf people scanSelection thr2 d) = Possible
        \<or> faceLevel (faceResultOf people scanSelection thr2 d) = Flagged"
    using m by (auto simp add: severity_Possible)
  from m f p scanImage_mono [OF le, of people scanSelection dets] show ?thesis by blast
qed

theorem threshold_monotone_witness:
  "(55 / 100 :: real) \<le> 65 / 100
   \<and> faceLevel (faceResultOf [\<lparr>ident = ''x'', pname = ''X'', samples = Some [[0]]\<rparr>] [] (55 / 100)
        \<lparr>descriptor = [6 / 10], width = 100, height = 100, score = Some 1\<rparr>) = Possible
   \<and> faceLevel (faceResultOf [\<lparr>ident = ''x'', pname = ''X'', samples = Some [[0]]\<rparr>] [] (65 / 100)
        \<lparr>descriptor = [6 / 10], width = 100, height = 100, score = Some 1\<rparr>) = Flagged"
  using threshold_monotone
    [of "55 / 100" "65 / 100" "[\<lparr>ident = ''x'', pname = ''X'', samples = Some [[0]]\<rparr>]" "[]"
      "\<lparr>descriptor = [6 / 10], width = 100, height = 100, score = Some 1\<rparr>" "[]"]
  by (simp add: eval_defs)

end
